theory Spec2Isabelle
  imports Complex_Main
begin

section \<open>Lo-fi step sequencer: the scheduling and synthesis engine\<close>

text \<open>
  A shallow embedding of \<^verbatim>\<open>src/audio/Scheduler.js\<close>, \<^verbatim>\<open>AudioEngine.js\<close> and
  \<^verbatim>\<open>SoundGenerator.js\<close>.

  Conventions of the embedding.
  \<^item> JavaScript numbers are modelled as \<^typ>\<open>real\<close> (times, tempi) and \<^typ>\<open>nat\<close>
    (the step counter, which the code only ever sets to \<open>0\<close> or to \<open>(n + 1) % 16\<close>).
    Rounding of IEEE doubles, \<open>Infinity\<close> and \<open>NaN\<close> are not represented: where a
    division by the tempo matters, the theorems assume a positive tempo.
  \<^item> A thrown exception (for an \<open>async\<close> function: a rejected promise) is the outcome
    \<open>Thrown e\<close>, paired with the state the object has at that moment.
  \<^item> A loop that may run forever returns \<^typ>\<open>'a option\<close>; \<open>None\<close> is "does not return".
  \<^item> The hardware clock \<open>audioContext.currentTime\<close> is read by the scheduler only; the
    reading is passed to the scheduler's functions as the argument \<open>now\<close>.
\<close>

subsection \<open>Outcomes\<close>

datatype error = TypeError | InvalidStateError | NotAllowedError

datatype 'a outcome = Returned 'a | Thrown error

subsection \<open>Scheduler.js\<close>

text \<open>
  The fields of \<open>class Scheduler\<close>. \<open>timerID\<close> holds the handle of the armed interval
  timer; browsers hand out positive integers, which are truthy, so \<open>if (this.timerID)\<close> is
  \<open>timerID s \<noteq> None\<close>. The model keeps the period the timer was armed with in place of
  the number.
\<close>

record Scheduler =
  tempo :: real
  lookahead :: real
  scheduleAheadTime :: real
  isPlaying :: bool
  currentStep :: nat
  nextNoteTime :: real
  timerID :: "real option"

text \<open>
  The two callbacks handed to the constructor act on the world outside the scheduler
  (\<^typ>\<open>'w\<close>); either may throw.
\<close>

record 'w callbacks =
  onStep :: "nat \<Rightarrow> 'w \<Rightarrow> unit outcome \<times> 'w"
  onSchedule :: "nat \<Rightarrow> real \<Rightarrow> 'w \<Rightarrow> unit outcome \<times> 'w"

definition calculateSixteenthNoteTime :: "real \<Rightarrow> real" where
  "calculateSixteenthNoteTime bpm = (60 / bpm) / 4"

text \<open>\<open>constructor({ audioContext, onStep, onSchedule, tempo = 85 })\<close>\<close>

definition newScheduler :: "real option \<Rightarrow> Scheduler" where
  "newScheduler t =
     \<lparr> tempo = (case t of None \<Rightarrow> 85 | Some bpm \<Rightarrow> bpm),
       lookahead = 25,
       scheduleAheadTime = 1 / 10,
       isPlaying = False,
       currentStep = 0,
       nextNoteTime = 0,
       timerID = None \<rparr>"

definition setTempo :: "real \<Rightarrow> Scheduler \<Rightarrow> Scheduler" where
  "setTempo newTempo s = s\<lparr>tempo := newTempo\<rparr>"

definition nextNote :: "Scheduler \<Rightarrow> Scheduler" where
  "nextNote s =
     (let secondsPerBeat = 60 / tempo s in
      s\<lparr>nextNoteTime := nextNoteTime s + secondsPerBeat / 4,
        currentStep := (currentStep s + 1) mod 16\<rparr>)"

text \<open>
  \<open>scheduler()\<close>: the lookahead loop. An exception of a callback leaves the loop at once,
  before \<open>nextNote()\<close>.
\<close>

partial_function (option) scheduler ::
  "'w callbacks \<Rightarrow> real \<Rightarrow> Scheduler \<times> 'w \<Rightarrow> (unit outcome \<times> Scheduler \<times> 'w) option" where
  "scheduler cb now sw =
    (case sw of (s, w) \<Rightarrow>
      if nextNoteTime s < now + scheduleAheadTime s then
        (case onStep cb (currentStep s) w of
           (Thrown e, w1) \<Rightarrow> Some (Thrown e, s, w1)
         | (Returned _, w1) \<Rightarrow>
            (case onSchedule cb (currentStep s) (nextNoteTime s) w1 of
               (Thrown e, w2) \<Rightarrow> Some (Thrown e, s, w2)
             | (Returned _, w2) \<Rightarrow> scheduler cb now (nextNote s, w2)))
      else Some (Returned (), s, w))"

declare scheduler.simps [code]

definition start ::
  "'w callbacks \<Rightarrow> real \<Rightarrow> Scheduler \<times> 'w \<Rightarrow> (unit outcome \<times> Scheduler \<times> 'w) option" where
  "start cb now sw =
    (case sw of (s, w) \<Rightarrow>
      if isPlaying s then Some (Returned (), s, w)
      else
        (case scheduler cb now (s\<lparr>isPlaying := True, nextNoteTime := now\<rparr>, w) of
           None \<Rightarrow> None
         | Some (Thrown e, s1, w1) \<Rightarrow> Some (Thrown e, s1, w1)
         | Some (Returned _, s1, w1) \<Rightarrow>
             Some (Returned (), s1\<lparr>timerID := Some (lookahead s1)\<rparr>, w1)))"

definition stop :: "Scheduler \<Rightarrow> Scheduler" where
  "stop s =
     (let s1 = s\<lparr>isPlaying := False\<rparr> in
      if timerID s1 \<noteq> None then s1\<lparr>timerID := None\<rparr> else s1)"

definition reset :: "Scheduler \<Rightarrow> Scheduler" where
  "reset s = s\<lparr>currentStep := 0\<rparr>"

definition destroy :: "Scheduler \<Rightarrow> Scheduler" where
  "destroy s = stop s"

text \<open>
  The interval callback \<open>() => this.scheduler()\<close>: the event loop runs it only while the
  timer is armed.
\<close>

definition tick ::
  "'w callbacks \<Rightarrow> real \<Rightarrow> Scheduler \<times> 'w \<Rightarrow> (unit outcome \<times> Scheduler \<times> 'w) option" where
  "tick cb now sw =
    (case sw of (s, w) \<Rightarrow>
      if timerID s = None then Some (Returned (), s, w) else scheduler cb now (s, w))"

subsection \<open>Driving a scheduler: calls as they arrive from the event loop\<close>

datatype command = Start real | Stop | Reset | SetTempo real | Tick real

fun exec ::
  "'w callbacks \<Rightarrow> command \<Rightarrow> Scheduler \<times> 'w \<Rightarrow> (unit outcome \<times> Scheduler \<times> 'w) option" where
  "exec cb (Start now) (s, w) = start cb now (s, w)"
| "exec cb Stop (s, w) = Some (Returned (), stop s, w)"
| "exec cb Reset (s, w) = Some (Returned (), reset s, w)"
| "exec cb (SetTempo bpm) (s, w) = Some (Returned (), setTempo bpm s, w)"
| "exec cb (Tick now) (s, w) = tick cb now (s, w)"

text \<open>A run ends at the first call that throws or does not return.\<close>

fun run ::
  "'w callbacks \<Rightarrow> command list \<Rightarrow> Scheduler \<times> 'w \<Rightarrow> (unit outcome \<times> Scheduler \<times> 'w) option" where
  "run cb [] sw = Some (Returned (), sw)"
| "run cb (c # cs) sw =
     (case exec cb c sw of
        None \<Rightarrow> None
      | Some (Thrown e, sw') \<Rightarrow> Some (Thrown e, sw')
      | Some (Returned _, sw') \<Rightarrow> run cb cs sw')"

text \<open>Callbacks that only record their invocations, in order.\<close>

datatype event = OnStep nat | OnSchedule nat real

definition recording :: "event list callbacks" where
  "recording =
     \<lparr> onStep = (\<lambda>step w. (Returned (), w @ [OnStep step])),
       onSchedule = (\<lambda>step time w. (Returned (), w @ [OnSchedule step time])) \<rparr>"

subsection \<open>The Web Audio objects the engine uses\<close>

text \<open>
  Only what the engine observes of the browser's objects is kept: the state and the clock
  of an \<open>AudioContext\<close>, the connections of the master chain, and the sound sources
  that were started on the context, in the order of the \<open>start\<close> calls. The random
  content of a noise buffer and the random detune of a chord oscillator are left out.
\<close>

datatype context_state = Suspended | Running | Closed

datatype audio_node =
    GainNode real
  | DynamicsCompressorNode real real real real
  | ContextDestination

datatype voice = Kick | Snare | HiHat | Chord

datatype generator = Oscillator real | Noise real

record source =
  voice :: voice
  generator :: generator
  startTime :: real
  stopTime :: real
  destination :: audio_node

record AudioContext =
  state :: context_state
  currentTime :: real
  connections :: "(audio_node \<times> audio_node) list"
  sources :: "source list"

text \<open>
  \<open>context.resume()\<close> and \<open>context.close()\<close> return promises. \<open>close()\<close> on a context
  that is closed already rejects with \<open>InvalidStateError\<close>; whether \<open>resume()\<close> is
  allowed is the browser's decision (\<open>allowed\<close>).
\<close>

definition resume :: "bool \<Rightarrow> AudioContext \<Rightarrow> unit outcome \<times> AudioContext" where
  "resume allowed c =
     (if allowed then (Returned (), c\<lparr>state := Running\<rparr>) else (Thrown NotAllowedError, c))"

definition close :: "AudioContext \<Rightarrow> unit outcome \<times> AudioContext" where
  "close c =
     (if state c = Closed then (Thrown InvalidStateError, c)
      else (Returned (), c\<lparr>state := Closed\<rparr>))"

subsection \<open>SoundGenerator.js\<close>

text \<open>
  Each voice function first calls a method of \<open>context\<close> (a \<open>TypeError\<close> when it is
  \<open>null\<close>), builds its nodes, connects its last gain stage to \<open>destination\<close> (a
  \<open>TypeError\<close> of \<open>connect\<close> when that is \<open>null\<close>) and only then starts its sources.
  Nothing is caught.
\<close>

definition createKick ::
  "AudioContext option \<Rightarrow> real \<Rightarrow> audio_node option \<Rightarrow> error + AudioContext" where
  "createKick context time dest =
     (case context of
        None \<Rightarrow> Inl TypeError
      | Some c \<Rightarrow>
         (case dest of
            None \<Rightarrow> Inl TypeError
          | Some d \<Rightarrow>
              Inr (c\<lparr>sources := sources c @
                [\<lparr>voice = Kick, generator = Oscillator 150, startTime = time,
                  stopTime = time + 1 / 2, destination = d\<rparr>]\<rparr>)))"

definition createSnare ::
  "AudioContext option \<Rightarrow> real \<Rightarrow> audio_node option \<Rightarrow> error + AudioContext" where
  "createSnare context time dest =
     (case context of
        None \<Rightarrow> Inl TypeError
      | Some c \<Rightarrow>
         (case dest of
            None \<Rightarrow> Inl TypeError
          | Some d \<Rightarrow>
              Inr (c\<lparr>sources := sources c @
                [\<lparr>voice = Snare, generator = Noise (2 / 10), startTime = time,
                  stopTime = time + 2 / 10, destination = d\<rparr>,
                 \<lparr>voice = Snare, generator = Oscillator 180, startTime = time,
                  stopTime = time + 1 / 10, destination = d\<rparr>]\<rparr>)))"

definition createHiHat ::
  "AudioContext option \<Rightarrow> real \<Rightarrow> audio_node option \<Rightarrow> error + AudioContext" where
  "createHiHat context time dest =
     (case context of
        None \<Rightarrow> Inl TypeError
      | Some c \<Rightarrow>
         (case dest of
            None \<Rightarrow> Inl TypeError
          | Some d \<Rightarrow>
              Inr (c\<lparr>sources := sources c @
                [\<lparr>voice = HiHat, generator = Noise (5 / 100), startTime = time,
                  stopTime = time + 5 / 100, destination = d\<rparr>]\<rparr>)))"

text \<open>\<open>frequencies.forEach\<close>: one oscillator per frequency, each connected and started in turn.\<close>

definition createChord ::
  "AudioContext option \<Rightarrow> real \<Rightarrow> audio_node option \<Rightarrow> error + AudioContext" where
  "createChord context time dest =
     (case context of
        None \<Rightarrow> Inl TypeError
      | Some c \<Rightarrow>
         (case dest of
            None \<Rightarrow> Inl TypeError
          | Some d \<Rightarrow>
              Inr (c\<lparr>sources := sources c @
                map (\<lambda>freq. \<lparr>voice = Chord, generator = Oscillator freq, startTime = time,
                              stopTime = time + 6 / 10, destination = d\<rparr>)
                    [29366 / 100, 34923 / 100, 52325 / 100]\<rparr>)))"

subsection \<open>AudioEngine.js\<close>

text \<open>
  A pattern as \<^verbatim>\<open>constants.js\<close> builds it: four arrays of \<open>0\<close>/\<open>1\<close>. A flag is active when
  it is truthy; an index past the end reads \<open>undefined\<close>, which is not.
\<close>

record Pattern =
  kick :: "int list"
  snare :: "int list"
  hihat :: "int list"
  chord :: "int list"

definition truthy :: "int list \<Rightarrow> nat \<Rightarrow> bool" where
  "truthy track step = (step < length track \<and> track ! step \<noteq> 0)"

text \<open>
  The fields of \<open>class AudioEngine\<close>; \<open>this.context\<close>, \<open>this.tempo\<close>, \<open>this.isPlaying\<close>,
  \<open>this.currentStep\<close> and \<open>this.scheduler\<close> carry the prefix \<open>engine\<close>. The scheduler's
  \<open>audioContext\<close> is the engine's context.
\<close>

record AudioEngine =
  engineContext :: "AudioContext option"
  masterGain :: "audio_node option"
  compressor :: "audio_node option"
  engineTempo :: real
  engineIsPlaying :: bool
  engineCurrentStep :: nat
  engineScheduler :: "Scheduler option"
  pattern :: "Pattern option"

definition newAudioEngine :: AudioEngine where
  "newAudioEngine =
     \<lparr> engineContext = None, masterGain = None, compressor = None, engineTempo = 85,
       engineIsPlaying = False, engineCurrentStep = 0, engineScheduler = None,
       pattern = None \<rparr>"

text \<open>\<open>setupMasterChain()\<close>, called by \<open>init()\<close> once a context exists.\<close>

definition setupMasterChain :: "AudioContext \<Rightarrow> AudioEngine \<Rightarrow> AudioEngine" where
  "setupMasterChain c e =
     (let g = GainNode (1 / 2);
          k = DynamicsCompressorNode (- 20) 4 (3 / 1000) (1 / 4)
      in e\<lparr>masterGain := Some g, compressor := Some k,
            engineContext :=
              Some (c\<lparr>connections := connections c @ [(g, k), (k, ContextDestination)]\<rparr>)\<rparr>)"

text \<open>
  One guarded voice call of \<open>scheduleStepSounds\<close>: \<open>createX(this.context, time,
  this.masterGain)\<close>.
\<close>

definition trigger ::
  "(AudioContext option \<Rightarrow> real \<Rightarrow> audio_node option \<Rightarrow> error + AudioContext) \<Rightarrow>
   real \<Rightarrow> AudioEngine \<Rightarrow> unit outcome \<times> AudioEngine" where
  "trigger create time e =
     (case create (engineContext e) time (masterGain e) of
        Inl err \<Rightarrow> (Thrown err, e)
      | Inr c \<Rightarrow> (Returned (), e\<lparr>engineContext := Some c\<rparr>))"

definition andThen ::
  "unit outcome \<times> 's \<Rightarrow> ('s \<Rightarrow> unit outcome \<times> 's) \<Rightarrow> unit outcome \<times> 's" where
  "andThen r f = (case r of (Thrown err, s) \<Rightarrow> (Thrown err, s) | (Returned _, s) \<Rightarrow> f s)"

definition scheduleStepSounds :: "nat \<Rightarrow> real \<Rightarrow> AudioEngine \<Rightarrow> unit outcome \<times> AudioEngine" where
  "scheduleStepSounds step time e =
     (case pattern e of
        None \<Rightarrow> (Returned (), e)
      | Some p \<Rightarrow>
          andThen (andThen (andThen
            (if truthy (kick p) step then trigger createKick time e else (Returned (), e))
            (\<lambda>e. if truthy (snare p) step then trigger createSnare time e else (Returned (), e)))
            (\<lambda>e. if truthy (hihat p) step then trigger createHiHat time e else (Returned (), e)))
            (\<lambda>e. if truthy (chord p) step then trigger createChord time e else (Returned (), e)))"

text \<open>The callbacks \<open>init()\<close> gives to its scheduler.\<close>

definition engineCallbacks :: "AudioEngine callbacks" where
  "engineCallbacks =
     \<lparr> onStep = (\<lambda>step e. (Returned (), e\<lparr>engineCurrentStep := step\<rparr>)),
       onSchedule = (\<lambda>step time e. scheduleStepSounds step time e) \<rparr>"

text \<open>
  \<open>async init()\<close>. The browser is a parameter: \<open>audioContextClass\<close> is
  \<open>window.AudioContext || window.webkitAudioContext\<close> (\<open>None\<close> when neither exists, else
  the context that \<open>new\<close> yields), \<open>resumeAllowed\<close> says whether \<open>resume()\<close> fulfils.
  \<open>new undefined()\<close> is a \<open>TypeError\<close>; a rejected \<open>await\<close> rejects \<open>init()\<close>.
\<close>

record window =
  audioContextClass :: "AudioContext option"
  resumeAllowed :: bool

definition init :: "window \<Rightarrow> AudioEngine \<Rightarrow> bool outcome \<times> AudioEngine" where
  "init win e =
     (case (case engineContext e of
              Some c \<Rightarrow> Some c
            | None \<Rightarrow> audioContextClass win) of
        None \<Rightarrow> (Thrown TypeError, e)
      | Some c0 \<Rightarrow>
          (case (if state c0 = Suspended then resume (resumeAllowed win) c0
                 else (Returned (), c0)) of
             (Thrown err, c1) \<Rightarrow> (Thrown err, e\<lparr>engineContext := Some c1\<rparr>)
           | (Returned _, c1) \<Rightarrow>
               (let e1 = e\<lparr>engineContext := Some c1\<rparr>;
                    e2 = (if masterGain e1 = None then setupMasterChain c1 e1 else e1);
                    e3 = (if engineScheduler e2 = None
                          then e2\<lparr>engineScheduler := Some (newScheduler (Some (engineTempo e2)))\<rparr>
                          else e2)
                in (Returned True, e3))))"

definition engine_start :: "AudioEngine \<Rightarrow> (unit outcome \<times> AudioEngine) option" where
  "engine_start e =
     (case engineScheduler e of
        None \<Rightarrow> Some (Returned (), e)
      | Some s \<Rightarrow>
         (case engineContext e of
            None \<Rightarrow> Some (Returned (), e)
          | Some c \<Rightarrow>
             (case start engineCallbacks (currentTime c) (s, e\<lparr>engineIsPlaying := True\<rparr>) of
                None \<Rightarrow> None
              | Some (r, s', e') \<Rightarrow> Some (r, e'\<lparr>engineScheduler := Some s'\<rparr>))))"

definition engine_stop :: "AudioEngine \<Rightarrow> AudioEngine" where
  "engine_stop e =
     (case engineScheduler e of
        None \<Rightarrow> e
      | Some s \<Rightarrow> e\<lparr>engineIsPlaying := False, engineScheduler := Some (stop s)\<rparr>)"

definition toggle :: "AudioEngine \<Rightarrow> (unit outcome \<times> AudioEngine) option" where
  "toggle e =
     (if engineIsPlaying e then Some (Returned (), engine_stop e) else engine_start e)"

definition engine_setTempo :: "real \<Rightarrow> AudioEngine \<Rightarrow> AudioEngine" where
  "engine_setTempo newTempo e =
     (let e1 = e\<lparr>engineTempo := newTempo\<rparr> in
      case engineScheduler e1 of
        None \<Rightarrow> e1
      | Some s \<Rightarrow> e1\<lparr>engineScheduler := Some (setTempo newTempo s)\<rparr>)"

definition setPattern :: "Pattern option \<Rightarrow> AudioEngine \<Rightarrow> AudioEngine" where
  "setPattern p e = e\<lparr>pattern := p\<rparr>"

definition engine_reset :: "AudioEngine \<Rightarrow> AudioEngine" where
  "engine_reset e =
     (let e1 = e\<lparr>engineCurrentStep := 0\<rparr> in
      case engineScheduler e1 of
        None \<Rightarrow> e1
      | Some s \<Rightarrow> e1\<lparr>engineScheduler := Some (reset s)\<rparr>)"

text \<open>
  \<open>destroy()\<close>. No statement of it throws, so the call returns. The promise of
  \<open>this.context.close()\<close> is neither awaited nor given a handler: when it is rejected,
  the rejection stays unhandled and the browser reports it as an error. The first
  component of the result lists the rejections the call leaves unhandled, the second is
  the engine afterwards. \<open>this.context\<close> is not cleared.
\<close>

definition engine_destroy :: "AudioEngine \<Rightarrow> error list \<times> AudioEngine" where
  "engine_destroy e =
     (let e1 = engine_stop e;
          e2 = (case engineScheduler e1 of
                  None \<Rightarrow> e1
                | Some s \<Rightarrow> e1\<lparr>engineScheduler := Some (destroy s)\<rparr>)
      in case engineContext e2 of
           None \<Rightarrow> ([], e2)
         | Some c \<Rightarrow>
            (case close c of
               (Returned _, c') \<Rightarrow> ([], e2\<lparr>engineContext := Some c'\<rparr>)
             | (Thrown err, c') \<Rightarrow> ([err], e2\<lparr>engineContext := Some c'\<rparr>)))"

text \<open>
  The interval callback of the engine's scheduler, and the hardware clock moving on
  between two tasks of the event loop. The scheduler reads the clock of the context it
  was constructed with, which is the engine's: \<open>init()\<close> makes the scheduler after the
  context, and nothing assigns \<open>this.context\<close> again once it is set.
\<close>

definition engine_tick :: "AudioEngine \<Rightarrow> (unit outcome \<times> AudioEngine) option" where
  "engine_tick e =
     (case engineScheduler e of
        None \<Rightarrow> Some (Returned (), e)
      | Some s \<Rightarrow>
         (case engineContext e of
            None \<Rightarrow> Some (Returned (), e)
          | Some c \<Rightarrow>
             (case tick engineCallbacks (currentTime c) (s, e) of
                None \<Rightarrow> None
              | Some (r, s', e') \<Rightarrow> Some (r, e'\<lparr>engineScheduler := Some s'\<rparr>))))"

definition clockAt :: "real \<Rightarrow> AudioEngine \<Rightarrow> AudioEngine" where
  "clockAt t e =
     (case engineContext e of
        None \<Rightarrow> e
      | Some c \<Rightarrow> e\<lparr>engineContext := Some (c\<lparr>currentTime := t\<rparr>)\<rparr>)"

subsection \<open>Notions used to state the properties\<close>

text \<open>
  \<open>after k n\<close> is the step counter \<open>n\<close> advances after \<open>k\<close>. \<open>stepsFrom k0 t0 dt n\<close> is
  the callback trace of \<open>n\<close> steps in a row, the first being step \<open>k0\<close> at time \<open>t0\<close>,
  each \<open>dt\<close> after the one before: \<open>onStep\<close>, then \<open>onSchedule\<close>, step by step.
\<close>

definition after :: "nat \<Rightarrow> nat \<Rightarrow> nat" where
  "after k n = (if n = 0 then k else (k + n) mod 16)"

definition stepsFrom :: "nat \<Rightarrow> real \<Rightarrow> real \<Rightarrow> nat \<Rightarrow> event list" where
  "stepsFrom k0 t0 dt n =
     concat (map (\<lambda>i. [OnStep (after k0 i), OnSchedule (after k0 i) (t0 + real i * dt)]) [0..<n])"

text \<open>What \<open>n\<close> rounds of the loop body of \<open>scheduler()\<close> hand to the callbacks.\<close>

fun emitted :: "nat \<Rightarrow> Scheduler \<Rightarrow> event list" where
  "emitted 0 s = []"
| "emitted (Suc n) s =
     OnStep (currentStep s) # OnSchedule (currentStep s) (nextNoteTime s) # emitted n (nextNote s)"

text \<open>
  The number of steps that are due in a pass at clock reading \<open>now\<close>, and in the first
  pass of \<open>start()\<close>.
\<close>

definition due :: "real \<Rightarrow> Scheduler \<Rightarrow> nat" where
  "due now s =
     nat \<lceil>(now + scheduleAheadTime s - nextNoteTime s) / calculateSixteenthNoteTime (tempo s)\<rceil>"

definition dueAtStart :: "Scheduler \<Rightarrow> nat" where
  "dueAtStart s = nat \<lceil>scheduleAheadTime s / calculateSixteenthNoteTime (tempo s)\<rceil>"

text \<open>
  A trace is \<open>consecutive\<close> from step \<open>k\<close> when it is \<open>onStep k\<close>, \<open>onSchedule k\<close>,
  \<open>onStep (k + 1) mod 16\<close>, \<open>onSchedule (k + 1) mod 16\<close> and so on; \<open>scheduledTimes\<close>
  are the times it hands to \<open>onSchedule\<close>.
\<close>

fun consecutive :: "nat \<Rightarrow> event list \<Rightarrow> bool" where
  "consecutive k [] = True"
| "consecutive k (OnStep a # OnSchedule b t # evs) =
     (a = k \<and> b = k \<and> consecutive ((k + 1) mod 16) evs)"
| "consecutive k evs = False"

fun scheduledTimes :: "event list \<Rightarrow> real list" where
  "scheduledTimes [] = []"
| "scheduledTimes (OnSchedule k t # evs) = t # scheduledTimes evs"
| "scheduledTimes (OnStep k # evs) = scheduledTimes evs"

text \<open>
  What happens between \<open>start()\<close> and the next \<open>stop()\<close> or \<open>reset()\<close>: timer passes at
  any clock readings, changes to a positive tempo, and further calls of \<open>start()\<close>.
\<close>

definition session_command :: "command \<Rightarrow> bool" where
  "session_command c =
     (case c of
        Tick now \<Rightarrow> True
      | SetTempo bpm \<Rightarrow> 0 < bpm
      | Start now \<Rightarrow> True
      | _ \<Rightarrow> False)"

text \<open>
  The voice function of a track, the tracks that are active at a step, in the order in
  which \<open>scheduleStepSounds\<close> looks at them, and calling the voice functions of a list
  of tracks one after the other, as long as none throws.
\<close>

definition voiceFunction ::
  "voice \<Rightarrow> AudioContext option \<Rightarrow> real \<Rightarrow> audio_node option \<Rightarrow> error + AudioContext" where
  "voiceFunction v =
     (case v of Kick \<Rightarrow> createKick | Snare \<Rightarrow> createSnare
              | HiHat \<Rightarrow> createHiHat | Chord \<Rightarrow> createChord)"

definition track :: "Pattern \<Rightarrow> voice \<Rightarrow> int list" where
  "track p v = (case v of Kick \<Rightarrow> kick p | Snare \<Rightarrow> snare p | HiHat \<Rightarrow> hihat p | Chord \<Rightarrow> chord p)"

definition activeVoices :: "Pattern \<Rightarrow> nat \<Rightarrow> voice list" where
  "activeVoices p step = filter (\<lambda>v. truthy (track p v) step) [Kick, Snare, HiHat, Chord]"

fun triggerAll :: "voice list \<Rightarrow> real \<Rightarrow> AudioEngine \<Rightarrow> unit outcome \<times> AudioEngine" where
  "triggerAll [] time e = (Returned (), e)"
| "triggerAll (v # vs) time e = andThen (trigger (voiceFunction v) time e) (triggerAll vs time)"

text \<open>
  The sources a voice function starts when context and destination are there, read off
  the function itself, and the sources started on the engine's context so far.
\<close>

definition voiceSources :: "voice \<Rightarrow> real \<Rightarrow> audio_node \<Rightarrow> source list" where
  "voiceSources v time d =
     (case voiceFunction v
             (Some \<lparr>state = Running, currentTime = 0, connections = [], sources = []\<rparr>)
             time (Some d) of
        Inl err \<Rightarrow> []
      | Inr c \<Rightarrow> sources c)"

definition engineSources :: "AudioEngine \<Rightarrow> source list" where
  "engineSources e = (case engineContext e of None \<Rightarrow> [] | Some c \<Rightarrow> sources c)"

text \<open>
  An example: a browser whose fresh context is suspended until resumed, a pattern with the
  kick on every fourth step, the engine after \<open>init()\<close> and \<open>setPattern\<close>, and that engine
  after \<open>start()\<close> at clock reading 0.
\<close>

definition fourOnTheFloor :: Pattern where
  "fourOnTheFloor =
     \<lparr> kick  = [1, 0, 0, 0, 1, 0, 0, 0, 1, 0, 0, 0, 1, 0, 0, 0],
       snare = [0, 0, 0, 0, 0, 0, 0, 0, 0, 0, 0, 0, 0, 0, 0, 0],
       hihat = [0, 0, 0, 0, 0, 0, 0, 0, 0, 0, 0, 0, 0, 0, 0, 0],
       chord = [0, 0, 0, 0, 0, 0, 0, 0, 0, 0, 0, 0, 0, 0, 0, 0] \<rparr>"

definition browser :: window where
  "browser =
     \<lparr> audioContextClass =
         Some \<lparr> state = Suspended, currentTime = 0, connections = [], sources = [] \<rparr>,
       resumeAllowed = True \<rparr>"

definition readyEngine :: AudioEngine where
  "readyEngine = setPattern (Some fourOnTheFloor) (snd (init browser newAudioEngine))"

definition playing1 :: AudioEngine where
  "playing1 = readyEngine\<lparr>engineContext :=
         Some \<lparr>state = Running, currentTime = 0,
           connections =
             [(GainNode (1 / 2), DynamicsCompressorNode (- 20) 4 (3 / 1000) (1 / 4)),
              (DynamicsCompressorNode (- 20) 4 (3 / 1000) (1 / 4), ContextDestination)],
           sources = [\<lparr>voice = Kick, generator = Oscillator 150, startTime = 0,
                stopTime = 1 / 2, destination = GainNode (1 / 2)\<rparr>]\<rparr>,
       engineIsPlaying := True,
       engineScheduler := Some ((newScheduler (Some 85))\<lparr>isPlaying := True, currentStep := 1,
           nextNoteTime := 3 / 17, timerID := Some 25\<rparr>)\<rparr>"

text \<open>
  Two browsers in which \<open>init()\<close> cannot succeed: one without the Web Audio API, one
  that hands out a suspended context and refuses to resume it.
\<close>

definition noAudioBrowser :: window where
  "noAudioBrowser = \<lparr> audioContextClass = None, resumeAllowed = True \<rparr>"

definition blockingBrowser :: window where
  "blockingBrowser =
     \<lparr> audioContextClass =
         Some \<lparr> state = Suspended, currentTime = 0, connections = [], sources = [] \<rparr>,
       resumeAllowed = False \<rparr>"

section \<open>Properties\<close>

subsection \<open>Advancing the step counter\<close>

lemma nextNote_fields:
  "tempo (nextNote s) = tempo s"
  "lookahead (nextNote s) = lookahead s"
  "scheduleAheadTime (nextNote s) = scheduleAheadTime s"
  "isPlaying (nextNote s) = isPlaying s"
  "timerID (nextNote s) = timerID s"
  "currentStep (nextNote s) = (currentStep s + 1) mod 16"
  "nextNoteTime (nextNote s) = nextNoteTime s + calculateSixteenthNoteTime (tempo s)"
  by (simp_all add: nextNote_def calculateSixteenthNoteTime_def Let_def)

lemma nextNote_funpow_fields:
  "tempo ((nextNote ^^ n) s) = tempo s"
  "lookahead ((nextNote ^^ n) s) = lookahead s"
  "scheduleAheadTime ((nextNote ^^ n) s) = scheduleAheadTime s"
  "isPlaying ((nextNote ^^ n) s) = isPlaying s"
  "timerID ((nextNote ^^ n) s) = timerID s"
  by (induction n) (simp_all add: nextNote_fields)

lemma nextNote_funpow_step:
  "currentStep ((nextNote ^^ n) s) =
     (if n = 0 then currentStep s else (currentStep s + n) mod 16)"
  by (induction n) (simp_all add: nextNote_fields mod_simps)

lemma nextNote_funpow_time:
  "nextNoteTime ((nextNote ^^ n) s) =
     nextNoteTime s + real n * calculateSixteenthNoteTime (tempo s)"
  by (induction n) (simp_all add: nextNote_fields nextNote_funpow_fields algebra_simps)

lemma nextNote_funpow:
  "(nextNote ^^ n) s =
     s\<lparr>nextNoteTime := nextNoteTime s + real n * calculateSixteenthNoteTime (tempo s),
       currentStep := after (currentStep s) n\<rparr>"
  by (rule Scheduler.equality)
     (simp_all add: nextNote_funpow_fields nextNote_funpow_step nextNote_funpow_time after_def)

lemma after_after: "after (after k n) m = after k (n + m)"
  by (simp add: after_def mod_simps add.assoc)

lemma after_Suc: "after (Suc k mod 16) n = after k (Suc n)"
  by (simp add: after_def mod_simps)

subsection \<open>One pass of the lookahead loop\<close>

lemma scheduler_recording_step:
  assumes "nextNoteTime s < now + scheduleAheadTime s"
  shows "scheduler recording now (s, w) =
         scheduler recording now
           (nextNote s, w @ [OnStep (currentStep s), OnSchedule (currentStep s) (nextNoteTime s)])"
  using assms by (subst scheduler.simps) (simp add: recording_def)

lemma scheduler_done:
  assumes "\<not> nextNoteTime s < now + scheduleAheadTime s"
  shows "scheduler cb now (s, w) = Some (Returned (), s, w)"
  using assms by (subst scheduler.simps) simp

lemma scheduler_recording_unroll:
  assumes "\<And>k. k < n \<Longrightarrow> nextNoteTime ((nextNote ^^ k) s) < now + scheduleAheadTime s"
  shows "scheduler recording now (s, w) =
         scheduler recording now ((nextNote ^^ n) s, w @ emitted n s)"
  using assms
proof (induction n arbitrary: s w)
  case 0
  then show ?case by simp
next
  case (Suc n)
  have first: "nextNoteTime s < now + scheduleAheadTime s"
    using Suc.prems [of 0] by simp
  have rest: "\<And>k. k < n \<Longrightarrow>
      nextNoteTime ((nextNote ^^ k) (nextNote s)) < now + scheduleAheadTime (nextNote s)"
    using Suc.prems [of "Suc _"] by (simp add: funpow_swap1 nextNote_fields)
  show ?case
    by (simp add: scheduler_recording_step [OF first] Suc.IH [OF rest] funpow_swap1)
qed

lemma due_iff:
  assumes "0 < tempo s"
  shows "k < due now s \<longleftrightarrow>
         nextNoteTime s + real k * calculateSixteenthNoteTime (tempo s) < now + scheduleAheadTime s"
proof -
  let ?d = "calculateSixteenthNoteTime (tempo s)"
  let ?x = "(now + scheduleAheadTime s - nextNoteTime s) / ?d"
  have d: "0 < ?d" using assms by (simp add: calculateSixteenthNoteTime_def)
  have "k < due now s \<longleftrightarrow> int k < \<lceil>?x\<rceil>"
    by (simp add: due_def zless_nat_eq_int_zless)
  also have "\<dots> \<longleftrightarrow> real k < ?x"
    by (simp add: less_ceiling_iff)
  also have "\<dots> \<longleftrightarrow> real k * ?d < now + scheduleAheadTime s - nextNoteTime s"
    using d by (simp add: pos_less_divide_eq)
  finally show ?thesis by (simp add: algebra_simps)
qed

lemma scheduler_recording_returns:
  assumes "0 < tempo s"
  shows "scheduler recording now (s, w) =
         Some (Returned (), (nextNote ^^ due now s) s, w @ emitted (due now s) s)"
proof -
  let ?n = "due now s"
  have before: "\<And>k. k < ?n \<Longrightarrow> nextNoteTime ((nextNote ^^ k) s) < now + scheduleAheadTime s"
    using due_iff [OF assms] by (simp add: nextNote_funpow_time)
  have "\<not> ?n < due now s" by simp
  then have after: "\<not> nextNoteTime ((nextNote ^^ ?n) s) < now + scheduleAheadTime ((nextNote ^^ ?n) s)"
    unfolding due_iff [OF assms] by (simp add: nextNote_funpow_time nextNote_funpow_fields)
  show ?thesis
    by (simp add: scheduler_recording_unroll [of ?n s now w, OF before]
        scheduler_done [OF after])
qed

subsection \<open>The trace of a pass\<close>

lemma emitted_snoc:
  "emitted (Suc n) s =
     emitted n s @ [OnStep (currentStep ((nextNote ^^ n) s)),
                    OnSchedule (currentStep ((nextNote ^^ n) s)) (nextNoteTime ((nextNote ^^ n) s))]"
proof (induction n arbitrary: s)
  case 0
  then show ?case by simp
next
  case (Suc n)
  have "emitted (Suc (Suc n)) s =
      OnStep (currentStep s) # OnSchedule (currentStep s) (nextNoteTime s) # emitted (Suc n) (nextNote s)"
    by simp
  also have "emitted (Suc n) (nextNote s) =
      emitted n (nextNote s) @
        [OnStep (currentStep ((nextNote ^^ n) (nextNote s))),
         OnSchedule (currentStep ((nextNote ^^ n) (nextNote s)))
           (nextNoteTime ((nextNote ^^ n) (nextNote s)))]"
    by (rule Suc.IH)
  finally show ?case by (simp add: funpow_swap1)
qed

lemma emitted_stepsFrom:
  "emitted n s =
     stepsFrom (currentStep s) (nextNoteTime s) (calculateSixteenthNoteTime (tempo s)) n"
proof (induction n)
  case 0
  then show ?case by (simp add: stepsFrom_def)
next
  case (Suc n)
  have "emitted (Suc n) s =
      emitted n s @ [OnStep (after (currentStep s) n),
         OnSchedule (after (currentStep s) n)
           (nextNoteTime s + real n * calculateSixteenthNoteTime (tempo s))]"
    by (simp only: emitted_snoc nextNote_funpow_step nextNote_funpow_time after_def)
  then show ?case
    by (simp add: Suc.IH stepsFrom_def)
qed

lemma stepsFrom_Suc:
  "stepsFrom k0 t0 dt (Suc n) =
     OnStep k0 # OnSchedule k0 t0 # stepsFrom (Suc k0 mod 16) (t0 + dt) dt n"
proof -
  have "[0..<Suc n] = 0 # map Suc [0..<n]"
    by (simp add: upt_conv_Cons map_Suc_upt del: upt_Suc)
  moreover have "after k0 0 = k0"
    by (simp add: after_def)
  ultimately show ?thesis
    by (simp add: stepsFrom_def comp_def after_Suc algebra_simps del: upt_Suc)
qed

lemma scheduledTimes_append: "scheduledTimes (xs @ ys) = scheduledTimes xs @ scheduledTimes ys"
  by (induction xs rule: scheduledTimes.induct) simp_all

lemma consecutive_append:
  "consecutive k xs \<Longrightarrow> consecutive (after k (length (scheduledTimes xs))) ys \<Longrightarrow>
   consecutive k (xs @ ys)"
proof (induction k xs rule: consecutive.induct)
  case (1 k)
  then show ?case by (simp add: after_def)
next
  case (2 k a b t evs)
  then show ?case by (simp add: after_Suc)
qed simp_all

lemma consecutive_emitted: "consecutive (currentStep s) (emitted n s)"
proof (induction n arbitrary: s)
  case 0
  then show ?case by simp
next
  case (Suc n)
  show ?case using Suc.IH [of "nextNote s"] by (simp add: nextNote_fields)
qed

lemma scheduledTimes_emitted:
  "scheduledTimes (emitted n s) =
     map (\<lambda>k. nextNoteTime s + real k * calculateSixteenthNoteTime (tempo s)) [0..<n]"
proof (induction n arbitrary: s)
  case 0
  then show ?case by simp
next
  case (Suc n)
  have "[0..<Suc n] = 0 # map Suc [0..<n]"
    by (simp add: upt_conv_Cons map_Suc_upt del: upt_Suc)
  then show ?case
    by (simp add: Suc.IH nextNote_fields algebra_simps del: upt_Suc)
qed

lemma length_scheduledTimes_emitted: "length (scheduledTimes (emitted n s)) = n"
  by (simp add: scheduledTimes_emitted)

lemma sorted_scheduledTimes_emitted:
  assumes "0 < tempo s"
  shows "sorted_wrt (<) (scheduledTimes (emitted n s))"
proof -
  have d: "0 < calculateSixteenthNoteTime (tempo s)"
    using assms by (simp add: calculateSixteenthNoteTime_def)
  show ?thesis
    unfolding scheduledTimes_emitted
    by (simp add: sorted_wrt_map d)
qed

lemma emitted_times_bounds:
  assumes "0 < tempo s" and "t \<in> set (scheduledTimes (emitted n s))"
  shows "nextNoteTime s \<le> t \<and> t < nextNoteTime ((nextNote ^^ n) s)"
proof -
  have d: "0 < calculateSixteenthNoteTime (tempo s)"
    using assms(1) by (simp add: calculateSixteenthNoteTime_def)
  from assms(2) obtain k where k: "k < n"
    and t: "t = nextNoteTime s + real k * calculateSixteenthNoteTime (tempo s)"
    by (auto simp: scheduledTimes_emitted)
  have "real k * calculateSixteenthNoteTime (tempo s) < real n * calculateSixteenthNoteTime (tempo s)"
    using k d by simp
  moreover have "0 \<le> real k * calculateSixteenthNoteTime (tempo s)"
    using d by simp
  ultimately show ?thesis
    by (simp add: t nextNote_funpow_time)
qed

lemma nextNoteTime_funpow_mono:
  assumes "0 < tempo s"
  shows "nextNoteTime s \<le> nextNoteTime ((nextNote ^^ n) s)"
  using assms by (simp add: nextNote_funpow_time calculateSixteenthNoteTime_def)

lemma scheduler_recording_pass:
  assumes "0 < tempo s"
  shows "scheduler recording now (s, w) =
     Some (Returned (),
           s\<lparr>nextNoteTime := nextNoteTime s + real (due now s) * calculateSixteenthNoteTime (tempo s),
             currentStep := after (currentStep s) (due now s)\<rparr>,
           w @ stepsFrom (currentStep s) (nextNoteTime s) (calculateSixteenthNoteTime (tempo s))
                 (due now s))"
  by (simp only: scheduler_recording_returns [OF assms] nextNote_funpow emitted_stepsFrom)

subsection \<open>Starting and stopping\<close>

lemma stop_fields:
  "tempo (stop s) = tempo s"
  "lookahead (stop s) = lookahead s"
  "scheduleAheadTime (stop s) = scheduleAheadTime s"
  "isPlaying (stop s) = False"
  "timerID (stop s) = None"
  "currentStep (stop s) = currentStep s"
  "nextNoteTime (stop s) = nextNoteTime s"
  by (simp_all add: stop_def Let_def)

lemma stop_idle: "\<not> isPlaying s \<Longrightarrow> timerID s = None \<Longrightarrow> stop s = s"
  by (simp add: stop_def Let_def)

lemma stop_stop: "stop (stop s) = stop s"
  by (rule stop_idle) (simp_all add: stop_fields)

lemma start_running: "isPlaying s \<Longrightarrow> start cb now (s, w) = Some (Returned (), s, w)"
  by (simp add: start_def)

lemma dueAtStart_pos:
  assumes "0 < tempo s" and "0 < scheduleAheadTime s"
  shows "0 < dueAtStart s"
  using assms by (simp add: dueAtStart_def calculateSixteenthNoteTime_def)

lemma start_recording_idle:
  assumes "0 < tempo s" and "\<not> isPlaying s"
  shows "start recording now (s, w) =
     Some (Returned (),
           s\<lparr>isPlaying := True,
             nextNoteTime := now + real (dueAtStart s) * calculateSixteenthNoteTime (tempo s),
             currentStep := after (currentStep s) (dueAtStart s),
             timerID := Some (lookahead s)\<rparr>,
           w @ stepsFrom (currentStep s) now (calculateSixteenthNoteTime (tempo s)) (dueAtStart s))"
proof -
  let ?s0 = "s\<lparr>isPlaying := True, nextNoteTime := now\<rparr>"
  have t0: "0 < tempo ?s0" using assms(1) by simp
  have "due now ?s0 = dueAtStart s"
    by (simp add: due_def dueAtStart_def)
  then show ?thesis
    using assms(2)
    by (simp add: start_def scheduler_recording_pass [OF t0])
qed

subsection \<open>A play session\<close>

lemma run_recording_session:
  assumes "list_all session_command cmds" and "0 < tempo s" and "timerID s \<noteq> None"
    and "isPlaying s"
  shows "\<exists>s' evs. run recording cmds (s, w) = Some (Returned (), s', w @ evs)
           \<and> consecutive (currentStep s) evs
           \<and> sorted_wrt (<) (scheduledTimes evs)
           \<and> (\<forall>t \<in> set (scheduledTimes evs). nextNoteTime s \<le> t \<and> t < nextNoteTime s')
           \<and> nextNoteTime s \<le> nextNoteTime s'
           \<and> currentStep s' = after (currentStep s) (length (scheduledTimes evs))
           \<and> 0 < tempo s' \<and> timerID s' \<noteq> None"
  using assms
proof (induction cmds arbitrary: s w)
  case Nil
  then show ?case by (simp add: after_def)
next
  case (Cons c cmds)
  from Cons.prems(1) have c: "session_command c" and rest: "list_all session_command cmds"
    by simp_all
  show ?case
  proof (cases c)
    case (Tick now)
    let ?n = "due now s"
    let ?s1 = "(nextNote ^^ ?n) s"
    have pass: "exec recording c (s, w) = Some (Returned (), ?s1, w @ emitted ?n s)"
      using Cons.prems(3) by (auto simp: Tick tick_def scheduler_recording_returns [OF Cons.prems(2)])
    have t1: "0 < tempo ?s1" and id1: "timerID ?s1 \<noteq> None" and p1: "isPlaying ?s1"
      using Cons.prems(2,3,4) by (simp_all add: nextNote_funpow_fields)
    from Cons.IH [OF rest t1 id1 p1, of "w @ emitted ?n s"]
    obtain s' evs where
      r: "run recording cmds (?s1, w @ emitted ?n s) = Some (Returned (), s', (w @ emitted ?n s) @ evs)"
      and cons: "consecutive (currentStep ?s1) evs"
      and srt: "sorted_wrt (<) (scheduledTimes evs)"
      and bnd: "\<forall>t \<in> set (scheduledTimes evs). nextNoteTime ?s1 \<le> t \<and> t < nextNoteTime s'"
      and mono: "nextNoteTime ?s1 \<le> nextNoteTime s'"
      and step: "currentStep s' = after (currentStep ?s1) (length (scheduledTimes evs))"
      and t': "0 < tempo s'" and id': "timerID s' \<noteq> None"
      by blast
    let ?evs = "emitted ?n s @ evs"
    have step1: "currentStep ?s1 = after (currentStep s) ?n"
      by (simp add: nextNote_funpow_step after_def)
    have A: "run recording (c # cmds) (s, w) = Some (Returned (), s', w @ ?evs)"
      using pass r by simp
    have B: "consecutive (currentStep s) ?evs"
      by (rule consecutive_append [OF consecutive_emitted])
         (use cons step1 in \<open>simp add: length_scheduledTimes_emitted\<close>)
    have lo: "\<And>t. t \<in> set (scheduledTimes (emitted ?n s)) \<Longrightarrow>
                nextNoteTime s \<le> t \<and> t < nextNoteTime ?s1"
      using emitted_times_bounds [OF Cons.prems(2)] by blast
    have C: "sorted_wrt (<) (scheduledTimes ?evs)"
      using sorted_scheduledTimes_emitted [OF Cons.prems(2), of ?n] srt lo bnd
      by (fastforce simp: scheduledTimes_append sorted_wrt_append)
    have m1: "nextNoteTime s \<le> nextNoteTime ?s1"
      by (rule nextNoteTime_funpow_mono [OF Cons.prems(2)])
    have D: "\<forall>t \<in> set (scheduledTimes ?evs). nextNoteTime s \<le> t \<and> t < nextNoteTime s'"
      using lo bnd mono m1 by (fastforce simp: scheduledTimes_append)
    have E: "nextNoteTime s \<le> nextNoteTime s'"
      using m1 mono by simp
    have F: "currentStep s' = after (currentStep s) (length (scheduledTimes ?evs))"
      by (simp add: step step1 after_after scheduledTimes_append length_scheduledTimes_emitted)
    show ?thesis
      using A B C D E F t' id' by blast
  next
    case (SetTempo bpm)
    have b: "0 < bpm" using c by (simp add: SetTempo session_command_def)
    let ?s1 = "setTempo bpm s"
    have t1: "0 < tempo ?s1" and id1: "timerID ?s1 \<noteq> None" and p1: "isPlaying ?s1"
      using b Cons.prems(3,4) by (simp_all add: setTempo_def)
    from Cons.IH [OF rest t1 id1 p1, of w]
    show ?thesis
      by (simp add: SetTempo setTempo_def)
  next
    case (Start now)
    from Cons.IH [OF rest Cons.prems(2,3,4), of w]
    show ?thesis
      by (simp add: Start start_running [OF Cons.prems(4)])
  qed (use c in \<open>simp_all add: session_command_def\<close>)
qed

lemma run_recording_play_session:
  assumes "0 < tempo s" and "\<not> isPlaying s" and "list_all session_command cmds"
  shows "\<exists>s' evs. run recording (Start t0 # cmds) (s, w) = Some (Returned (), s', w @ evs)
           \<and> consecutive (currentStep s) evs
           \<and> sorted_wrt (<) (scheduledTimes evs)
           \<and> currentStep s' = after (currentStep s) (length (scheduledTimes evs))"
proof -
  let ?s0 = "s\<lparr>isPlaying := True, nextNoteTime := t0\<rparr>"
  let ?n = "due t0 ?s0"
  let ?s1 = "((nextNote ^^ ?n) ?s0)\<lparr>timerID := Some (lookahead ((nextNote ^^ ?n) ?s0))\<rparr>"
  have t0: "0 < tempo ?s0" using assms(1) by simp
  have st: "start recording t0 (s, w) = Some (Returned (), ?s1, w @ emitted ?n ?s0)"
    using assms(2) by (simp add: start_def scheduler_recording_returns [OF t0])
  have t1: "0 < tempo ?s1" and id1: "timerID ?s1 \<noteq> None" and p1: "isPlaying ?s1"
    using assms(1) by (simp_all add: nextNote_funpow_fields)
  from run_recording_session [OF assms(3) t1 id1 p1, of "w @ emitted ?n ?s0"]
  obtain s' evs where
    r: "run recording cmds (?s1, w @ emitted ?n ?s0) = Some (Returned (), s', (w @ emitted ?n ?s0) @ evs)"
    and cons: "consecutive (currentStep ?s1) evs"
    and srt: "sorted_wrt (<) (scheduledTimes evs)"
    and bnd: "\<forall>t \<in> set (scheduledTimes evs). nextNoteTime ?s1 \<le> t \<and> t < nextNoteTime s'"
    and step: "currentStep s' = after (currentStep ?s1) (length (scheduledTimes evs))"
    by blast
  let ?evs = "emitted ?n ?s0 @ evs"
  have step1: "currentStep ?s1 = after (currentStep s) ?n"
    by (simp add: nextNote_funpow_step after_def)
  have A: "run recording (Start t0 # cmds) (s, w) = Some (Returned (), s', w @ ?evs)"
    using st r by simp
  have "consecutive (currentStep ?s0) ?evs"
    by (rule consecutive_append [OF consecutive_emitted])
       (use cons step1 in \<open>simp add: length_scheduledTimes_emitted\<close>)
  then have B: "consecutive (currentStep s) ?evs" by simp
  have lo: "\<And>t. t \<in> set (scheduledTimes (emitted ?n ?s0)) \<Longrightarrow> t < nextNoteTime ?s1"
    using emitted_times_bounds [OF t0] by simp
  have C: "sorted_wrt (<) (scheduledTimes ?evs)"
    using sorted_scheduledTimes_emitted [OF t0, of ?n] srt lo bnd
    by (fastforce simp: scheduledTimes_append sorted_wrt_append)
  have F: "currentStep s' = after (currentStep s) (length (scheduledTimes ?evs))"
    by (simp add: step step1 after_after scheduledTimes_append length_scheduledTimes_emitted)
  show ?thesis
    using A B C F by blast
qed

subsection \<open>The engine\<close>

lemma andThen_assoc: "andThen (andThen r f) g = andThen r (\<lambda>s. andThen (f s) g)"
  by (cases r rule: prod.exhaust; cases "fst r") (auto simp: andThen_def)

lemma andThen_Returned: "andThen (Returned u, s) f = f s"
  by (simp add: andThen_def)

lemma andThen_return: "andThen r (\<lambda>s. (Returned (), s)) = r"
  by (cases r rule: prod.exhaust; cases "fst r") (auto simp: andThen_def)

lemma scheduleStepSounds_triggerAll:
  assumes "pattern e = Some p"
  shows "scheduleStepSounds step time e = triggerAll (activeVoices p step) time e"
proof -
  have nil: "triggerAll [] time = (\<lambda>e. (Returned (), e))"
    by (rule ext) simp
  have cons: "triggerAll (v # vs) time =
      (\<lambda>e. andThen (trigger (voiceFunction v) time e) (triggerAll vs time))" for v vs
    by (rule ext) simp
  show ?thesis
    by (cases "truthy (kick p) step"; cases "truthy (snare p) step";
        cases "truthy (hihat p) step"; cases "truthy (chord p) step")
       (simp_all add: scheduleStepSounds_def assms activeVoices_def track_def voiceFunction_def
          andThen_assoc andThen_Returned andThen_return nil cons)
qed

lemma voiceFunction_available:
  "voiceFunction v (Some c) time (Some d) = Inr (c\<lparr>sources := sources c @ voiceSources v time d\<rparr>)"
  by (cases v)
     (simp_all add: voiceFunction_def voiceSources_def createKick_def createSnare_def
        createHiHat_def createChord_def)

lemma voiceSources_facts:
  "voiceSources v time d \<noteq> []"
  "list_all (\<lambda>x. voice x = v \<and> startTime x = time \<and> destination x = d) (voiceSources v time d)"
  by (cases v; simp add: voiceFunction_def voiceSources_def createKick_def createSnare_def
        createHiHat_def createChord_def)+

lemma trigger_available:
  assumes "engineContext e = Some c" and "masterGain e = Some g"
  shows "trigger (voiceFunction v) time e =
         (Returned (), e\<lparr>engineContext := Some (c\<lparr>sources := sources c @ voiceSources v time g\<rparr>)\<rparr>)"
  by (simp add: trigger_def assms voiceFunction_available)

lemma triggerAll_available:
  assumes "engineContext e = Some c" and "masterGain e = Some g"
  shows "triggerAll vs time e =
         (Returned (),
          e\<lparr>engineContext :=
              Some (c\<lparr>sources := sources c @ concat (map (\<lambda>v. voiceSources v time g) vs)\<rparr>)\<rparr>)"
  using assms
proof (induction vs arbitrary: e c)
  case Nil
  then show ?case by simp
next
  case (Cons v vs)
  let ?c1 = "c\<lparr>sources := sources c @ voiceSources v time g\<rparr>"
  let ?e1 = "e\<lparr>engineContext := Some ?c1\<rparr>"
  have c1: "engineContext ?e1 = Some ?c1" and g1: "masterGain ?e1 = Some g"
    using Cons.prems by simp_all
  show ?case
    by (simp add: trigger_available [OF Cons.prems] andThen_Returned Cons.IH [OF c1 g1])
qed

lemma readyEngine_eq:
  "readyEngine =
    \<lparr>engineContext =
      Some \<lparr>state = Running, currentTime = 0,
        connections =
          [(GainNode (1 / 2), DynamicsCompressorNode (- 20) 4 (3 / 1000) (1 / 4)),
           (DynamicsCompressorNode (- 20) 4 (3 / 1000) (1 / 4), ContextDestination)],
        sources = []\<rparr>,
    masterGain = Some (GainNode (1 / 2)),
    compressor = Some (DynamicsCompressorNode (- 20) 4 (3 / 1000) (1 / 4)),
    engineTempo = 85, engineIsPlaying = False, engineCurrentStep = 0,
    engineScheduler = Some (newScheduler (Some 85)),
    pattern = Some fourOnTheFloor\<rparr>"
  by (simp add: readyEngine_def init_def browser_def newAudioEngine_def resume_def
      setupMasterChain_def setPattern_def Let_def)

lemmas engine_eval =
  engine_start_def engine_tick_def clockAt_def start_def tick_def scheduler.simps
  engineCallbacks_def scheduleStepSounds_def truthy_def trigger_def andThen_def
  createKick_def createSnare_def createHiHat_def createChord_def nextNote_def
  newScheduler_def fourOnTheFloor_def

lemma engine_run_start:
  "engine_start readyEngine = Some (Returned (), playing1)"
  by (simp add: playing1_def readyEngine_eq engine_eval)

lemma engine_run_tick:
  "engine_tick (clockAt (13 / 5) playing1) = Some (Returned (),
     readyEngine\<lparr>engineContext :=
         Some \<lparr>state = Running, currentTime = 13 / 5,
           connections =
             [(GainNode (1 / 2), DynamicsCompressorNode (- 20) 4 (3 / 1000) (1 / 4)),
              (DynamicsCompressorNode (- 20) 4 (3 / 1000) (1 / 4), ContextDestination)],
           sources = [\<lparr>voice = Kick, generator = Oscillator 150, startTime = 0,
                stopTime = 1 / 2, destination = GainNode (1 / 2)\<rparr>,
             \<lparr>voice = Kick, generator = Oscillator 150, startTime = 12 / 17,
                stopTime = 41 / 34, destination = GainNode (1 / 2)\<rparr>,
             \<lparr>voice = Kick, generator = Oscillator 150, startTime = 24 / 17,
                stopTime = 65 / 34, destination = GainNode (1 / 2)\<rparr>,
             \<lparr>voice = Kick, generator = Oscillator 150, startTime = 36 / 17,
                stopTime = 89 / 34, destination = GainNode (1 / 2)\<rparr>]\<rparr>,
       engineIsPlaying := True,
       engineCurrentStep := 15,
       engineScheduler := Some ((newScheduler (Some 85))\<lparr>isPlaying := True, currentStep := 0,
           nextNoteTime := 48 / 17, timerID := Some 25\<rparr>)\<rparr>)"
  by (simp add: playing1_def readyEngine_eq engine_eval)

subsection \<open>What a pass keeps, for any callbacks\<close>

lemma scheduler_keeps:
  assumes "scheduler cb now (s, w) = Some (r, s', w')"
    and "\<And>k v. I v \<Longrightarrow> I (snd (onStep cb k v))"
    and "\<And>k t v. I v \<Longrightarrow> I (snd (onSchedule cb k t v))"
    and "I w"
  shows "I w' \<and> isPlaying s' = isPlaying s \<and> timerID s' = timerID s \<and> tempo s' = tempo s
         \<and> lookahead s' = lookahead s \<and> scheduleAheadTime s' = scheduleAheadTime s"
proof -
  let ?Q = "\<lambda>sw y. I (snd sw) \<longrightarrow>
      I (snd (snd y)) \<and> isPlaying (fst (snd y)) = isPlaying (fst sw)
      \<and> timerID (fst (snd y)) = timerID (fst sw) \<and> tempo (fst (snd y)) = tempo (fst sw)
      \<and> lookahead (fst (snd y)) = lookahead (fst sw)
      \<and> scheduleAheadTime (fst (snd y)) = scheduleAheadTime (fst sw)"
  have "(\<lambda>c n sw y. c = cb \<longrightarrow> ?Q sw y) cb now (s, w) (r, s', w')"
  proof (rule scheduler.raw_induct [where P = "\<lambda>c n sw y. c = cb \<longrightarrow> ?Q sw y", OF _ assms(1)],
      goal_cases)
    case (1 f c n sw y)
    show ?case
    proof (intro impI)
      assume c: "c = cb" and i: "I (snd sw)"
      obtain s0 w0 where sw: "sw = (s0, w0)" by (cases sw)
      have i0: "I w0" using i sw by simp
      show "I (snd (snd y)) \<and> isPlaying (fst (snd y)) = isPlaying (fst sw)
        \<and> timerID (fst (snd y)) = timerID (fst sw) \<and> tempo (fst (snd y)) = tempo (fst sw)
        \<and> lookahead (fst (snd y)) = lookahead (fst sw)
        \<and> scheduleAheadTime (fst (snd y)) = scheduleAheadTime (fst sw)"
      proof (cases "nextNoteTime s0 < n + scheduleAheadTime s0")
        case False
        with 1(2) sw i0 show ?thesis by auto
      next
        case True
        obtain r1 w1 where a: "onStep cb (currentStep s0) w0 = (r1, w1)"
          by (cases "onStep cb (currentStep s0) w0")
        have i1: "I w1" using assms(2) [OF i0, of "currentStep s0"] a by simp
        show ?thesis
        proof (cases r1)
          case (Thrown e)
          with 1(2) sw True a c i1 show ?thesis by auto
        next
          case (Returned u)
          obtain r2 w2 where b: "onSchedule cb (currentStep s0) (nextNoteTime s0) w1 = (r2, w2)"
            by (cases "onSchedule cb (currentStep s0) (nextNoteTime s0) w1")
          have i2: "I w2"
            using assms(3) [OF i1, of "currentStep s0" "nextNoteTime s0"] b by simp
          show ?thesis
          proof (cases r2)
            case (Thrown e)
            with 1(2) sw True a b c Returned i2 show ?thesis by auto
          next
            case r2: (Returned u2)
            have rec: "f cb n (nextNote s0, w2) = Some y"
              using 1(2) sw True a b c Returned r2 by simp
            from 1(1) [OF rec] c i2 show ?thesis
              by (simp add: sw nextNote_fields)
          qed
        qed
      qed
    qed
  qed
  with assms(4) show ?thesis by simp
qed

subsection \<open>What the engine's calls change\<close>

lemma trigger_frame: "\<exists>c. snd (trigger f time e) = e\<lparr>engineContext := c\<rparr>"
proof (cases "f (engineContext e) time (masterGain e)")
  case (Inl err)
  then have "snd (trigger f time e) = e\<lparr>engineContext := engineContext e\<rparr>"
    by (simp add: trigger_def)
  then show ?thesis by blast
next
  case (Inr c)
  then have "snd (trigger f time e) = e\<lparr>engineContext := Some c\<rparr>"
    by (simp add: trigger_def)
  then show ?thesis by blast
qed

lemma triggerAll_frame: "\<exists>c. snd (triggerAll vs time e) = e\<lparr>engineContext := c\<rparr>"
proof (induction vs arbitrary: e)
  case Nil
  have "snd (triggerAll [] time e) = e\<lparr>engineContext := engineContext e\<rparr>" by simp
  then show ?case by blast
next
  case (Cons v vs)
  obtain r e1 where t: "trigger (voiceFunction v) time e = (r, e1)"
    by (cases "trigger (voiceFunction v) time e")
  from trigger_frame [of "voiceFunction v" time e] t
  obtain c1 where e1: "e1 = e\<lparr>engineContext := c1\<rparr>" by auto
  show ?case
  proof (cases r)
    case (Thrown err)
    then have "snd (triggerAll (v # vs) time e) = e\<lparr>engineContext := c1\<rparr>"
      by (simp add: t andThen_def e1)
    then show ?thesis by blast
  next
    case (Returned u)
    from Cons.IH [of e1] obtain c2 where "snd (triggerAll vs time e1) = e1\<lparr>engineContext := c2\<rparr>"
      by blast
    then have "snd (triggerAll (v # vs) time e) = e\<lparr>engineContext := c2\<rparr>"
      by (simp add: t andThen_def Returned e1)
    then show ?thesis by blast
  qed
qed

lemma scheduleStepSounds_frame:
  "\<exists>c. snd (scheduleStepSounds step time e) = e\<lparr>engineContext := c\<rparr>"
proof (cases "pattern e")
  case None
  then have "snd (scheduleStepSounds step time e) = e\<lparr>engineContext := engineContext e\<rparr>"
    by (simp add: scheduleStepSounds_def)
  then show ?thesis by blast
next
  case (Some p)
  then show ?thesis
    by (simp add: scheduleStepSounds_triggerAll triggerAll_frame)
qed

lemma scheduleStepSounds_available:
  assumes "pattern e = Some p" and "engineContext e = Some c" and "masterGain e = Some g"
  shows "scheduleStepSounds step time e =
         (Returned (),
          e\<lparr>engineContext :=
              Some (c\<lparr>sources := sources c @
                       concat (map (\<lambda>v. voiceSources v time g) (activeVoices p step))\<rparr>)\<rparr>)"
  by (simp only: scheduleStepSounds_triggerAll [OF assms(1)] triggerAll_available [OF assms(2,3)])

lemma scheduleStepSounds_no_pattern:
  "pattern e = None \<Longrightarrow> scheduleStepSounds step time e = (Returned (), e)"
  by (simp add: scheduleStepSounds_def)

lemma scheduleStepSounds_returns:
  assumes "engineContext e \<noteq> None" and "masterGain e \<noteq> None"
  shows "fst (scheduleStepSounds step time e) = Returned ()
       \<and> engineContext (snd (scheduleStepSounds step time e)) \<noteq> None
       \<and> masterGain (snd (scheduleStepSounds step time e)) = masterGain e"
proof (cases "pattern e")
  case None
  then show ?thesis using assms by (simp add: scheduleStepSounds_no_pattern)
next
  case (Some p)
  from assms obtain c g where "engineContext e = Some c" "masterGain e = Some g" by auto
  from scheduleStepSounds_available [OF Some this] show ?thesis by simp
qed

lemma engineCallbacks_keep_playing:
  "engineIsPlaying (snd (onStep engineCallbacks k e)) = engineIsPlaying e"
  "engineIsPlaying (snd (onSchedule engineCallbacks k t e)) = engineIsPlaying e"
proof -
  show "engineIsPlaying (snd (onStep engineCallbacks k e)) = engineIsPlaying e"
    by (simp add: engineCallbacks_def)
  from scheduleStepSounds_frame [of k t e]
  obtain c where "snd (scheduleStepSounds k t e) = e\<lparr>engineContext := c\<rparr>" by blast
  then show "engineIsPlaying (snd (onSchedule engineCallbacks k t e)) = engineIsPlaying e"
    by (simp add: engineCallbacks_def)
qed

lemma engine_stop_stop: "engine_stop (engine_stop e) = engine_stop e"
  by (cases "engineScheduler e") (simp_all add: engine_stop_def stop_stop)

lemma close_close: "snd (close (snd (close c))) = snd (close c)"
  by (simp add: close_def)

lemma close_closed: "state (snd (close c)) = Closed"
  by (simp add: close_def)

lemma engine_destroy_state:
  "snd (engine_destroy e) =
     (let e2 = (case engineScheduler e of
                  None \<Rightarrow> e
                | Some s \<Rightarrow> e\<lparr>engineIsPlaying := False, engineScheduler := Some (stop s)\<rparr>)
      in case engineContext e of
           None \<Rightarrow> e2
         | Some c \<Rightarrow> e2\<lparr>engineContext := Some (snd (close c))\<rparr>)"
  by (cases "engineScheduler e"; cases "engineContext e")
     (auto simp: engine_destroy_def engine_stop_def destroy_def stop_stop Let_def
        split: prod.splits outcome.splits)

lemma engine_destroy_destroy:
  "snd (engine_destroy (snd (engine_destroy e))) = snd (engine_destroy e)"
  by (cases "engineScheduler e"; cases "engineContext e")
     (simp_all add: engine_destroy_state stop_stop close_close)

lemma engine_destroy_no_context:
  "engineContext e = None \<Longrightarrow> fst (engine_destroy e) = []"
  by (cases "engineScheduler e") (simp_all add: engine_destroy_def engine_stop_def)

lemma engine_destroy_first:
  assumes "engineContext e = Some c" and "state c \<noteq> Closed"
  shows "fst (engine_destroy e) = []"
  using assms
  by (cases "engineScheduler e") (simp_all add: engine_destroy_def engine_stop_def close_def)

lemma engine_destroy_closed:
  assumes "engineContext e = Some c" and "state c = Closed"
  shows "fst (engine_destroy e) = [InvalidStateError]"
  using assms
  by (cases "engineScheduler e") (simp_all add: engine_destroy_def engine_stop_def close_def)

lemma engine_destroy_second:
  assumes "engineContext e \<noteq> None"
  shows "fst (engine_destroy (snd (engine_destroy e))) = [InvalidStateError]"
proof -
  from assms obtain c where c: "engineContext e = Some c" by auto
  have "engineContext (snd (engine_destroy e)) = Some (snd (close c))"
    by (cases "engineScheduler e") (simp_all add: engine_destroy_state c)
  then show ?thesis
    by (rule engine_destroy_closed) (rule close_closed)
qed

lemma start_returned_playing:
  assumes "start engineCallbacks now (s, e) = Some (Returned u, s', e')" and "engineIsPlaying e"
  shows "isPlaying s' \<and> engineIsPlaying e'"
proof (cases "isPlaying s")
  case True
  with assms show ?thesis by (simp add: start_def)
next
  case False
  let ?s0 = "s\<lparr>isPlaying := True, nextNoteTime := now\<rparr>"
  from assms(1) False obtain s1 where
    p: "scheduler engineCallbacks now (?s0, e) = Some (Returned (), s1, e')"
    and s': "s' = s1\<lparr>timerID := Some (lookahead s1)\<rparr>"
    by (auto simp: start_def split: option.splits outcome.splits)
  from scheduler_keeps [where I = engineIsPlaying, OF p _ _ assms(2)]
  have "engineIsPlaying e' \<and> isPlaying s1 = isPlaying ?s0"
    by (simp add: engineCallbacks_keep_playing)
  then show ?thesis by (simp add: s')
qed

lemma engine_start_twice:
  assumes "engine_start e = Some (Returned (), e')"
  shows "engine_start e' = Some (Returned (), e')"
proof (cases "engineScheduler e")
  case None
  with assms show ?thesis by (simp add: engine_start_def)
next
  case (Some s)
  show ?thesis
  proof (cases "engineContext e")
    case None
    with assms Some show ?thesis by (simp add: engine_start_def)
  next
    case c: (Some c)
    from assms Some c obtain s' e1 where
      st: "start engineCallbacks (currentTime c) (s, e\<lparr>engineIsPlaying := True\<rparr>)
             = Some (Returned (), s', e1)"
      and e': "e' = e1\<lparr>engineScheduler := Some s'\<rparr>"
      by (auto simp: engine_start_def split: option.splits)
    from start_returned_playing [OF st] have pl: "isPlaying s'" "engineIsPlaying e1"
      by simp_all
    have sch: "engineScheduler e' = Some s'" and ep: "engineIsPlaying e'"
      using pl by (simp_all add: e')
    have same: "e'\<lparr>engineIsPlaying := True, engineScheduler := Some s'\<rparr> = e'"
      using sch ep by simp
    show ?thesis
    proof (cases "engineContext e'")
      case None
      then show ?thesis by (simp add: engine_start_def sch)
    next
      case (Some c')
      then show ?thesis
        using same by (simp add: engine_start_def sch start_running [OF pl(1)])
    qed
  qed
qed

subsection \<open>Voice calls without a context or a destination\<close>

lemma voiceFunction_null_context: "voiceFunction v None time dest = Inl TypeError"
  by (cases v)
     (simp_all add: voiceFunction_def createKick_def createSnare_def createHiHat_def
        createChord_def)

lemma voiceFunction_null_destination: "voiceFunction v ctx time None = Inl TypeError"
  by (cases v; cases ctx)
     (simp_all add: voiceFunction_def createKick_def createSnare_def createHiHat_def
        createChord_def)

lemma trigger_unavailable:
  assumes "engineContext e = None \<or> masterGain e = None"
  shows "trigger (voiceFunction v) time e = (Thrown TypeError, e)"
  using assms
  by (auto simp: trigger_def voiceFunction_null_context voiceFunction_null_destination)

lemma scheduleStepSounds_unavailable:
  assumes "pattern e = Some p" and "activeVoices p step \<noteq> []"
    and "engineContext e = None \<or> masterGain e = None"
  shows "scheduleStepSounds step time e = (Thrown TypeError, e)"
proof -
  from assms(2) obtain v vs where a: "activeVoices p step = v # vs"
    by (cases "activeVoices p step") simp_all
  show ?thesis
    by (simp add: scheduleStepSounds_triggerAll [OF assms(1)] a
        trigger_unavailable [OF assms(3)] andThen_def)
qed

section \<open>The claims\<close>

text \<open>
  Claim C1. Every pass of \<open>scheduler()\<close> with a positive tempo returns, and hands to the
  callbacks exactly the steps whose time lies before \<open>now + scheduleAheadTime\<close>:
  \<open>due now s\<close> of them, for each \<open>onStep\<close> and then \<open>onSchedule\<close> before the next step is
  looked at, in step order modulo 16, one sixteenth note apart. However far the clock has
  moved, none is left out. Over a whole play session (a \<open>start()\<close> of an idle scheduler
  followed by timer passes at any clock readings, changes to a positive tempo and further
  calls of \<open>start()\<close>) the
  trace is consecutive from the step the session started at, and the scheduled times
  increase strictly, so that no step is handed out twice.
\<close>

theorem scheduling_order:
  assumes "0 < tempo s"
  shows "scheduler recording now (s, w) =
           Some (Returned (),
                 s\<lparr>nextNoteTime :=
                     nextNoteTime s + real (due now s) * calculateSixteenthNoteTime (tempo s),
                   currentStep := after (currentStep s) (due now s)\<rparr>,
                 w @ stepsFrom (currentStep s) (nextNoteTime s)
                       (calculateSixteenthNoteTime (tempo s)) (due now s))
       \<and> (\<forall>k. (k < due now s) =
              (nextNoteTime s + real k * calculateSixteenthNoteTime (tempo s)
                 < now + scheduleAheadTime s))
       \<and> (\<not> isPlaying s \<and> list_all session_command cmds \<longrightarrow>
            (\<exists>s' evs. run recording (Start t0 # cmds) (s, []) = Some (Returned (), s', evs)
               \<and> consecutive (currentStep s) evs
               \<and> sorted_wrt (<) (scheduledTimes evs)
               \<and> currentStep s' = after (currentStep s) (length (scheduledTimes evs))))"
proof (intro conjI allI impI)
  show "scheduler recording now (s, w) =
           Some (Returned (),
                 s\<lparr>nextNoteTime :=
                     nextNoteTime s + real (due now s) * calculateSixteenthNoteTime (tempo s),
                   currentStep := after (currentStep s) (due now s)\<rparr>,
                 w @ stepsFrom (currentStep s) (nextNoteTime s)
                       (calculateSixteenthNoteTime (tempo s)) (due now s))"
    by (rule scheduler_recording_pass [OF assms])
next
  fix k
  show "(k < due now s) =
        (nextNoteTime s + real k * calculateSixteenthNoteTime (tempo s) < now + scheduleAheadTime s)"
    by (rule due_iff [OF assms])
next
  assume a: "\<not> isPlaying s \<and> list_all session_command cmds"
  then have "\<exists>s' evs. run recording (Start t0 # cmds) (s, []) = Some (Returned (), s', [] @ evs)
           \<and> consecutive (currentStep s) evs
           \<and> sorted_wrt (<) (scheduledTimes evs)
           \<and> currentStep s' = after (currentStep s) (length (scheduledTimes evs))"
    using run_recording_play_session [OF assms, of cmds t0 "[]"] by blast
  then show "\<exists>s' evs. run recording (Start t0 # cmds) (s, []) = Some (Returned (), s', evs)
           \<and> consecutive (currentStep s) evs
           \<and> sorted_wrt (<) (scheduledTimes evs)
           \<and> currentStep s' = after (currentStep s) (length (scheduledTimes evs))"
    by simp
qed

theorem scheduling_order_witness:
  "0 < tempo (newScheduler (Some 120))
   \<and> \<not> isPlaying (newScheduler (Some 120))
   \<and> list_all session_command [Tick (1 / 40), Start (1 / 20), Tick 1]
   \<and> scheduler recording (3 / 10) (newScheduler (Some 120), []) =
       Some (Returned (),
             (newScheduler (Some 120))\<lparr>nextNoteTime := 1 / 2, currentStep := 4\<rparr>,
             [OnStep 0, OnSchedule 0 0, OnStep 1, OnSchedule 1 (1 / 8),
              OnStep 2, OnSchedule 2 (1 / 4), OnStep 3, OnSchedule 3 (3 / 8)])
   \<and> run recording [Start 0, Tick (1 / 40), Start (1 / 20), Tick 1] (newScheduler (Some 120), []) =
       Some (Returned (),
             (newScheduler (Some 120))\<lparr>isPlaying := True, currentStep := 9,
                nextNoteTime := 9 / 8, timerID := Some 25\<rparr>,
             [OnStep 0, OnSchedule 0 0, OnStep 1, OnSchedule 1 (1 / 8),
              OnStep 2, OnSchedule 2 (1 / 4), OnStep 3, OnSchedule 3 (3 / 8),
              OnStep 4, OnSchedule 4 (1 / 2), OnStep 5, OnSchedule 5 (5 / 8),
              OnStep 6, OnSchedule 6 (3 / 4), OnStep 7, OnSchedule 7 (7 / 8),
              OnStep 8, OnSchedule 8 1])
   \<and> (\<exists>s' evs. run recording [Start 0, Tick (1 / 40), Start (1 / 20), Tick 1]
                    (newScheduler (Some 120), [])
                  = Some (Returned (), s', evs)
         \<and> consecutive 0 evs \<and> sorted_wrt (<) (scheduledTimes evs)
         \<and> currentStep s' = after 0 (length (scheduledTimes evs)))"
proof -
  let ?s = "newScheduler (Some 120)"
  have t: "0 < tempo ?s" by (simp add: newScheduler_def)
  have idle: "\<not> isPlaying ?s" by (simp add: newScheduler_def)
  have cmds: "list_all session_command [Tick (1 / 40), Start (1 / 20), Tick 1]"
    by (simp add: session_command_def)
  have d: "due (3 / 10) ?s = 4"
    by (simp add: due_def newScheduler_def calculateSixteenthNoteTime_def)
  have k: "currentStep ?s = 0" "nextNoteTime ?s = 0" "calculateSixteenthNoteTime (tempo ?s) = 1 / 8"
    by (simp_all add: newScheduler_def calculateSixteenthNoteTime_def)
  note inst = scheduling_order [OF t, of "3 / 10" "[]" "[Tick (1 / 40), Start (1 / 20), Tick 1]" 0]
  have pass: "scheduler recording (3 / 10) (?s, []) =
       Some (Returned (), ?s\<lparr>nextNoteTime := 1 / 2, currentStep := 4\<rparr>,
             [OnStep 0, OnSchedule 0 0, OnStep 1, OnSchedule 1 (1 / 8),
              OnStep 2, OnSchedule 2 (1 / 4), OnStep 3, OnSchedule 3 (3 / 8)])"
    using inst [THEN conjunct1]
    by (simp add: d k stepsFrom_def upt_conv_Cons after_def)
  have sess: "\<exists>s' evs. run recording [Start 0, Tick (1 / 40), Start (1 / 20), Tick 1] (?s, [])
                  = Some (Returned (), s', evs)
         \<and> consecutive 0 evs \<and> sorted_wrt (<) (scheduledTimes evs)
         \<and> currentStep s' = after 0 (length (scheduledTimes evs))"
    using inst [THEN conjunct2, THEN conjunct2] idle cmds k(1) by simp
  have trace: "run recording [Start 0, Tick (1 / 40), Start (1 / 20), Tick 1] (?s, []) =
       Some (Returned (),
             ?s\<lparr>isPlaying := True, currentStep := 9, nextNoteTime := 9 / 8, timerID := Some 25\<rparr>,
             [OnStep 0, OnSchedule 0 0, OnStep 1, OnSchedule 1 (1 / 8),
              OnStep 2, OnSchedule 2 (1 / 4), OnStep 3, OnSchedule 3 (3 / 8),
              OnStep 4, OnSchedule 4 (1 / 2), OnStep 5, OnSchedule 5 (5 / 8),
              OnStep 6, OnSchedule 6 (3 / 4), OnStep 7, OnSchedule 7 (7 / 8),
              OnStep 8, OnSchedule 8 1])"
    by (simp add: start_def tick_def scheduler.simps recording_def nextNote_def newScheduler_def)
  show ?thesis
    using t idle cmds pass sess trace by blast
qed

text \<open>
  Claim C3. For a tempo between 60 and 180 the duration of a sixteenth note is
  \<open>(60 / bpm) / 4\<close> seconds, between a twelfth and a quarter of a second; it is an eighth
  of a second at 120 and within a thousandth of 0.17647 at 85. \<open>nextNote()\<close> moves
  \<open>nextNoteTime\<close> on by this duration at the tempo of the moment, and the step counter by
  one modulo 16.
\<close>

theorem sixteenth_note_duration:
  assumes "60 \<le> bpm" and "bpm \<le> 180" and "tempo s = bpm"
  shows "calculateSixteenthNoteTime bpm = (60 / bpm) / 4
       \<and> 0 < calculateSixteenthNoteTime bpm
       \<and> 1 / 12 \<le> calculateSixteenthNoteTime bpm
       \<and> calculateSixteenthNoteTime bpm \<le> 1 / 4
       \<and> calculateSixteenthNoteTime 120 = 125 / 1000
       \<and> \<bar>calculateSixteenthNoteTime 85 - 17647 / 100000\<bar> < 1 / 1000
       \<and> nextNoteTime (nextNote s) = nextNoteTime s + calculateSixteenthNoteTime bpm
       \<and> currentStep (nextNote s) = (currentStep s + 1) mod 16
       \<and> tempo (nextNote s) = bpm"
proof -
  have pos: "0 < bpm" using assms(1) by simp
  have lo: "1 / 12 \<le> 60 / bpm / 4"
    using assms(2) pos by (simp add: field_simps)
  have hi: "60 / bpm / 4 \<le> 1 / 4"
    using assms(1) pos by (simp add: field_simps)
  have adv: "nextNoteTime (nextNote s) = nextNoteTime s + calculateSixteenthNoteTime bpm"
    using assms(3) by (simp add: nextNote_fields)
  show ?thesis
    using pos lo hi adv assms(3)
    by (simp add: calculateSixteenthNoteTime_def nextNote_fields)
qed

theorem sixteenth_note_duration_witness:
  "(60::real) \<le> 85 \<and> (85::real) \<le> 180 \<and> tempo (newScheduler None) = 85
   \<and> calculateSixteenthNoteTime 85 = 3 / 17
   \<and> nextNoteTime (nextNote (newScheduler None)) = 3 / 17
   \<and> currentStep (nextNote (newScheduler None)) = 1"
  using sixteenth_note_duration [of 85 "newScheduler None"]
  by (simp add: newScheduler_def calculateSixteenthNoteTime_def)

text \<open>
  Claim C4. \<open>start()\<close> of an idle scheduler sets \<open>nextNoteTime\<close> to the clock reading,
  runs one pass at once, which schedules the current step at exactly that reading and at
  least this one step, and arms the timer. After \<open>stop()\<close> the same holds whatever
  \<open>nextNoteTime\<close> was before: no drift is carried over. \<open>start()\<close> of a running scheduler
  changes nothing and calls no callback; \<open>stop()\<close> of an idle one changes nothing.
\<close>

theorem start_stop_transitions:
  assumes "0 < tempo s" and "0 < scheduleAheadTime s"
  shows "(\<not> isPlaying s \<longrightarrow>
            start recording now (s, w) =
              Some (Returned (),
                    s\<lparr>isPlaying := True,
                      nextNoteTime := now + real (dueAtStart s) * calculateSixteenthNoteTime (tempo s),
                      currentStep := after (currentStep s) (dueAtStart s),
                      timerID := Some (lookahead s)\<rparr>,
                    w @ stepsFrom (currentStep s) now (calculateSixteenthNoteTime (tempo s))
                          (dueAtStart s)))
       \<and> 0 < dueAtStart s
       \<and> start recording now (stop s, w) =
              Some (Returned (),
                    s\<lparr>isPlaying := True,
                      nextNoteTime := now + real (dueAtStart s) * calculateSixteenthNoteTime (tempo s),
                      currentStep := after (currentStep s) (dueAtStart s),
                      timerID := Some (lookahead s)\<rparr>,
                    w @ stepsFrom (currentStep s) now (calculateSixteenthNoteTime (tempo s))
                          (dueAtStart s))
       \<and> (isPlaying s \<longrightarrow> start cb now (s, x) = Some (Returned (), s, x))
       \<and> (\<not> isPlaying s \<and> timerID s = None \<longrightarrow> stop s = s)"
proof (intro conjI impI)
  assume "\<not> isPlaying s"
  then show "start recording now (s, w) =
              Some (Returned (),
                    s\<lparr>isPlaying := True,
                      nextNoteTime := now + real (dueAtStart s) * calculateSixteenthNoteTime (tempo s),
                      currentStep := after (currentStep s) (dueAtStart s),
                      timerID := Some (lookahead s)\<rparr>,
                    w @ stepsFrom (currentStep s) now (calculateSixteenthNoteTime (tempo s))
                          (dueAtStart s))"
    by (rule start_recording_idle [OF assms(1)])
next
  show "0 < dueAtStart s"
    by (rule dueAtStart_pos [OF assms])
next
  have t: "0 < tempo (stop s)" and idle: "\<not> isPlaying (stop s)"
    using assms(1) by (simp_all add: stop_fields)
  have same: "dueAtStart (stop s) = dueAtStart s"
    by (simp add: dueAtStart_def stop_fields)
  have "(stop s)\<lparr>isPlaying := True, nextNoteTime := t1, currentStep := k, timerID := Some l\<rparr>
        = s\<lparr>isPlaying := True, nextNoteTime := t1, currentStep := k, timerID := Some l\<rparr>" for t1 k l
    by (simp add: stop_def Let_def)
  then show "start recording now (stop s, w) =
              Some (Returned (),
                    s\<lparr>isPlaying := True,
                      nextNoteTime := now + real (dueAtStart s) * calculateSixteenthNoteTime (tempo s),
                      currentStep := after (currentStep s) (dueAtStart s),
                      timerID := Some (lookahead s)\<rparr>,
                    w @ stepsFrom (currentStep s) now (calculateSixteenthNoteTime (tempo s))
                          (dueAtStart s))"
    by (simp add: start_recording_idle [OF t idle] same stop_fields)
next
  assume "isPlaying s"
  then show "start cb now (s, x) = Some (Returned (), s, x)"
    by (rule start_running)
next
  assume "\<not> isPlaying s \<and> timerID s = None"
  then show "stop s = s"
    by (simp add: stop_idle)
qed

theorem start_stop_transitions_witness:
  "0 < tempo (newScheduler None) \<and> 0 < scheduleAheadTime (newScheduler None)
   \<and> \<not> isPlaying (newScheduler None)
   \<and> dueAtStart (newScheduler None) = 1
   \<and> start recording 5 ((newScheduler None)\<lparr>nextNoteTime := 3\<rparr>, []) =
        Some (Returned (),
              (newScheduler None)\<lparr>isPlaying := True, nextNoteTime := 5 + 3 / 17, currentStep := 1,
                 timerID := Some 25\<rparr>,
              [OnStep 0, OnSchedule 0 5])
   \<and> stop (newScheduler None) = newScheduler None
   \<and> start recording 7 ((newScheduler None)\<lparr>isPlaying := True, timerID := Some 25\<rparr>, [])
        = Some (Returned (), (newScheduler None)\<lparr>isPlaying := True, timerID := Some 25\<rparr>, [])"
  using start_stop_transitions [where s = "(newScheduler None)\<lparr>nextNoteTime := 3\<rparr>"
      and now = 5 and w = "[]"]
    start_stop_transitions [where s = "(newScheduler None)\<lparr>isPlaying := True, timerID := Some 25\<rparr>"
      and now = 7 and cb = recording and x = "[]"]
    start_stop_transitions [where s = "newScheduler None"]
  by (simp add: newScheduler_def dueAtStart_def calculateSixteenthNoteTime_def stepsFrom_def
      upt_conv_Cons after_def)

text \<open>
  Claim C5. \<open>setTempo\<close> changes the tempo and nothing else: \<open>nextNoteTime\<close>, the step
  counter, the playing flag and the timer stay. What was handed to the callbacks before
  stays in the trace; the next step is scheduled at the time computed before the change,
  and the steps after it follow at the new tempo's distance.
\<close>

theorem setTempo_frame:
  "nextNoteTime (setTempo bpm s) = nextNoteTime s
   \<and> currentStep (setTempo bpm s) = currentStep s
   \<and> isPlaying (setTempo bpm s) = isPlaying s
   \<and> timerID (setTempo bpm s) = timerID s
   \<and> tempo (setTempo bpm s) = bpm
   \<and> setTempo bpm s = s\<lparr>tempo := bpm\<rparr>
   \<and> nextNoteTime (nextNote (setTempo bpm s)) = nextNoteTime s + calculateSixteenthNoteTime bpm
   \<and> (0 < bpm \<longrightarrow>
        scheduler recording now (setTempo bpm s, w) =
          Some (Returned (),
                s\<lparr>tempo := bpm,
                  nextNoteTime := nextNoteTime s
                     + real (due now (setTempo bpm s)) * calculateSixteenthNoteTime bpm,
                  currentStep := after (currentStep s) (due now (setTempo bpm s))\<rparr>,
                w @ stepsFrom (currentStep s) (nextNoteTime s) (calculateSixteenthNoteTime bpm)
                      (due now (setTempo bpm s))))"
proof -
  have frame: "nextNoteTime (setTempo bpm s) = nextNoteTime s"
    "currentStep (setTempo bpm s) = currentStep s"
    "isPlaying (setTempo bpm s) = isPlaying s"
    "timerID (setTempo bpm s) = timerID s"
    "tempo (setTempo bpm s) = bpm"
    "setTempo bpm s = s\<lparr>tempo := bpm\<rparr>"
    by (simp_all add: setTempo_def)
  have adv: "nextNoteTime (nextNote (setTempo bpm s)) = nextNoteTime s + calculateSixteenthNoteTime bpm"
    by (simp add: nextNote_fields frame)
  have pass: "scheduler recording now (setTempo bpm s, w) =
          Some (Returned (),
                s\<lparr>tempo := bpm,
                  nextNoteTime := nextNoteTime s
                     + real (due now (setTempo bpm s)) * calculateSixteenthNoteTime bpm,
                  currentStep := after (currentStep s) (due now (setTempo bpm s))\<rparr>,
                w @ stepsFrom (currentStep s) (nextNoteTime s) (calculateSixteenthNoteTime bpm)
                      (due now (setTempo bpm s)))" if "0 < bpm"
  proof -
    have "0 < tempo (setTempo bpm s)" using that by (simp add: frame)
    from scheduler_recording_pass [OF this, of now w] show ?thesis
      by (simp add: setTempo_def)
  qed
  show ?thesis
    using frame adv pass by blast
qed

theorem setTempo_frame_witness:
  "(0::real) < 60
   \<and> tempo (setTempo 60 ((newScheduler (Some 120))\<lparr>nextNoteTime := 1 / 8, currentStep := 1\<rparr>)) = 60
   \<and> nextNoteTime (setTempo 60 ((newScheduler (Some 120))\<lparr>nextNoteTime := 1 / 8, currentStep := 1\<rparr>))
        = 1 / 8
   \<and> scheduler recording (1 / 2)
        (setTempo 60 ((newScheduler (Some 120))\<lparr>nextNoteTime := 1 / 8, currentStep := 1\<rparr>),
         [OnStep 0, OnSchedule 0 0]) =
       Some (Returned (),
             (newScheduler (Some 60))\<lparr>nextNoteTime := 5 / 8, currentStep := 3\<rparr>,
             [OnStep 0, OnSchedule 0 0, OnStep 1, OnSchedule 1 (1 / 8), OnStep 2, OnSchedule 2 (3 / 8)])"
proof -
  let ?s = "(newScheduler (Some 120))\<lparr>nextNoteTime := 1 / 8, currentStep := 1\<rparr>"
  show ?thesis
    using setTempo_frame [of 60 ?s "1 / 2" "[OnStep 0, OnSchedule 0 0]"]
    by (simp add: due_def newScheduler_def setTempo_def nextNote_def
        calculateSixteenthNoteTime_def stepsFrom_def upt_conv_Cons after_def)
qed

text \<open>
  Claim C6. \<open>reset()\<close> sets the step counter to 0 and leaves \<open>nextNoteTime\<close>, the playing
  flag, the tempo and the timer as they are; the engine's \<open>reset()\<close> does the same to its
  own step counter and to its scheduler, and touches no other field.
\<close>

theorem reset_frame:
  "currentStep (reset s) = 0
   \<and> nextNoteTime (reset s) = nextNoteTime s
   \<and> isPlaying (reset s) = isPlaying s
   \<and> tempo (reset s) = tempo s
   \<and> timerID (reset s) = timerID s
   \<and> reset s = s\<lparr>currentStep := 0\<rparr>
   \<and> engineCurrentStep (engine_reset e) = 0
   \<and> engineScheduler (engine_reset e) = map_option reset (engineScheduler e)
   \<and> engineIsPlaying (engine_reset e) = engineIsPlaying e
   \<and> engineTempo (engine_reset e) = engineTempo e
   \<and> engineContext (engine_reset e) = engineContext e
   \<and> masterGain (engine_reset e) = masterGain e
   \<and> compressor (engine_reset e) = compressor e
   \<and> pattern (engine_reset e) = pattern e"
  by (cases "engineScheduler e") (simp_all add: reset_def engine_reset_def Let_def)

theorem reset_frame_witness:
  "reset ((newScheduler (Some 120))\<lparr>isPlaying := True, currentStep := 9, nextNoteTime := 9 / 8,
            timerID := Some 25\<rparr>)
     = (newScheduler (Some 120))\<lparr>isPlaying := True, currentStep := 0, nextNoteTime := 9 / 8,
            timerID := Some 25\<rparr>
   \<and> engine_reset (newAudioEngine\<lparr>engineCurrentStep := 5\<rparr>) = newAudioEngine"
  using reset_frame [of "(newScheduler (Some 120))\<lparr>isPlaying := True, currentStep := 9,
            nextNoteTime := 9 / 8, timerID := Some 25\<rparr>" "newAudioEngine\<lparr>engineCurrentStep := 5\<rparr>"]
  by (simp add: newScheduler_def newAudioEngine_def engine_reset_def)

text \<open>
  Claim C10. \<open>stop()\<close> clears the playing flag and the timer and leaves the step counter,
  \<open>nextNoteTime\<close> and the tempo as they are, so that the next \<open>start()\<close> schedules first
  the step at which the scheduler was stopped; \<open>setTempo\<close> keeps the step counter too,
  and \<open>reset()\<close> is the call that sets it to 0.
\<close>

theorem stop_keeps_position:
  "currentStep (stop s) = currentStep s
   \<and> nextNoteTime (stop s) = nextNoteTime s
   \<and> tempo (stop s) = tempo s
   \<and> \<not> isPlaying (stop s)
   \<and> timerID (stop s) = None
   \<and> stop s = s\<lparr>isPlaying := False, timerID := None\<rparr>
   \<and> (0 < tempo s \<and> 0 < scheduleAheadTime s \<longrightarrow>
        (\<exists>s' evs. start recording now (stop s, w) =
             Some (Returned (), s',
                   w @ OnStep (currentStep s) # OnSchedule (currentStep s) now # evs)))
   \<and> currentStep (setTempo bpm s) = currentStep s
   \<and> currentStep (reset s) = 0"
proof -
  have frame: "currentStep (stop s) = currentStep s" "nextNoteTime (stop s) = nextNoteTime s"
    "tempo (stop s) = tempo s" "\<not> isPlaying (stop s)" "timerID (stop s) = None"
    "stop s = s\<lparr>isPlaying := False, timerID := None\<rparr>"
    by (simp_all add: stop_def Let_def)
  have others: "currentStep (setTempo bpm s) = currentStep s" "currentStep (reset s) = 0"
    by (simp_all add: setTempo_def reset_def)
  have resume: "\<exists>s' evs. start recording now (stop s, w) =
             Some (Returned (), s',
                   w @ OnStep (currentStep s) # OnSchedule (currentStep s) now # evs)"
    if "0 < tempo s \<and> 0 < scheduleAheadTime s"
  proof -
    have t: "0 < tempo (stop s)" and a: "0 < scheduleAheadTime (stop s)"
      and idle: "\<not> isPlaying (stop s)"
      using that by (simp_all add: stop_fields)
    from dueAtStart_pos [OF t a] obtain n where n: "dueAtStart (stop s) = Suc n"
      by (cases "dueAtStart (stop s)") simp_all
    show ?thesis
      by (simp add: start_recording_idle [OF t idle] n stepsFrom_Suc stop_fields)
  qed
  show ?thesis
    using frame others resume by blast
qed

theorem stop_keeps_position_witness:
  "currentStep (stop ((newScheduler (Some 120))\<lparr>isPlaying := True, currentStep := 9,
       nextNoteTime := 9 / 8, timerID := Some 25\<rparr>)) = 9
   \<and> stop ((newScheduler (Some 120))\<lparr>isPlaying := True, currentStep := 9,
       nextNoteTime := 9 / 8, timerID := Some 25\<rparr>)
      = (newScheduler (Some 120))\<lparr>currentStep := 9, nextNoteTime := 9 / 8\<rparr>
   \<and> start recording 2 (stop ((newScheduler (Some 120))\<lparr>isPlaying := True, currentStep := 9,
       nextNoteTime := 9 / 8, timerID := Some 25\<rparr>), []) =
       Some (Returned (),
             (newScheduler (Some 120))\<lparr>isPlaying := True, currentStep := 10,
                nextNoteTime := 17 / 8, timerID := Some 25\<rparr>,
             [OnStep 9, OnSchedule 9 2])"
proof -
  let ?s = "(newScheduler (Some 120))\<lparr>isPlaying := True, currentStep := 9,
       nextNoteTime := 9 / 8, timerID := Some 25\<rparr>"
  have ev: "start recording 2 (stop ?s, []) =
       Some (Returned (),
             (newScheduler (Some 120))\<lparr>isPlaying := True, currentStep := 10,
                nextNoteTime := 17 / 8, timerID := Some 25\<rparr>,
             [OnStep 9, OnSchedule 9 2])"
    by (simp add: start_def stop_def scheduler.simps recording_def nextNote_def newScheduler_def)
  show ?thesis
    using stop_keeps_position [of ?s 2 "[]" 60] ev
    by (simp add: newScheduler_def)
qed

text \<open>
  Claim C2. Without a pattern \<open>scheduleStepSounds\<close> returns at once and changes nothing.
  With a pattern it calls the voice functions of exactly the tracks whose flag at the
  step is active, kick, snare, hi-hat, chord in this order, each with the engine's
  context, the given time and the master gain; on an initialised engine none of them
  throws and each starts its sources at that time into the master gain. With the kick on
  steps 0, 4, 8 and 12 and nothing else, a run over the sixteen steps (\<open>start()\<close> at clock
  reading 0, then one late timer pass at 2.6 s, tempo 85) starts four kick sources and no
  other source.
\<close>

theorem scheduleStepSounds_dispatch:
  "(pattern e = None \<longrightarrow> scheduleStepSounds step time e = (Returned (), e))
   \<and> (pattern e = Some p \<longrightarrow>
        scheduleStepSounds step time e = triggerAll (activeVoices p step) time e)
   \<and> (pattern e = Some p \<and> engineContext e = Some c \<and> masterGain e = Some g \<longrightarrow>
        scheduleStepSounds step time e =
          (Returned (),
           e\<lparr>engineContext :=
               Some (c\<lparr>sources := sources c @
                        concat (map (\<lambda>v. voiceSources v time g) (activeVoices p step))\<rparr>)\<rparr>))
   \<and> voiceSources v time g \<noteq> []
   \<and> list_all (\<lambda>x. voice x = v \<and> startTime x = time \<and> destination x = g) (voiceSources v time g)
   \<and> engine_start readyEngine = Some (Returned (), playing1)
   \<and> (\<exists>e2. engine_tick (clockAt (13 / 5) playing1) = Some (Returned (), e2)
          \<and> map (\<lambda>x. (voice x, startTime x)) (engineSources e2)
              = [(Kick, 0), (Kick, 12 / 17), (Kick, 24 / 17), (Kick, 36 / 17)]
          \<and> engineCurrentStep e2 = 15
          \<and> map_option currentStep (engineScheduler e2) = Some 0
          \<and> map_option nextNoteTime (engineScheduler e2)
              = Some (16 * calculateSixteenthNoteTime 85))"
proof -
  have run: "\<exists>e2. engine_tick (clockAt (13 / 5) playing1) = Some (Returned (), e2)
          \<and> map (\<lambda>x. (voice x, startTime x)) (engineSources e2)
              = [(Kick, 0), (Kick, 12 / 17), (Kick, 24 / 17), (Kick, 36 / 17)]
          \<and> engineCurrentStep e2 = 15
          \<and> map_option currentStep (engineScheduler e2) = Some 0
          \<and> map_option nextNoteTime (engineScheduler e2)
              = Some (16 * calculateSixteenthNoteTime 85)"
    by (simp add: engine_run_tick engineSources_def calculateSixteenthNoteTime_def)
  show ?thesis
    using run engine_run_start voiceSources_facts [of v time g]
      scheduleStepSounds_no_pattern [of e step time]
      scheduleStepSounds_triggerAll [of e p step time]
      scheduleStepSounds_available [of e p c g step time]
    by blast
qed

theorem scheduleStepSounds_dispatch_witness:
  "pattern readyEngine = Some fourOnTheFloor
   \<and> pattern newAudioEngine = None
   \<and> activeVoices fourOnTheFloor 4 = [Kick]
   \<and> activeVoices fourOnTheFloor 5 = []
   \<and> scheduleStepSounds 4 (1 / 2) newAudioEngine = (Returned (), newAudioEngine)
   \<and> scheduleStepSounds 5 (1 / 2) readyEngine = (Returned (), readyEngine)
   \<and> engineSources (snd (scheduleStepSounds 4 (1 / 2) readyEngine))
        = [\<lparr>voice = Kick, generator = Oscillator 150, startTime = 1 / 2, stopTime = 1,
            destination = GainNode (1 / 2)\<rparr>]"
proof -
  let ?c = "\<lparr>state = Running, currentTime = 0,
        connections =
          [(GainNode (1 / 2), DynamicsCompressorNode (- 20) 4 (3 / 1000) (1 / 4)),
           (DynamicsCompressorNode (- 20) 4 (3 / 1000) (1 / 4), ContextDestination)],
        sources = []\<rparr>"
  have p: "pattern readyEngine = Some fourOnTheFloor"
    and c: "engineContext readyEngine = Some ?c"
    and g: "masterGain readyEngine = Some (GainNode (1 / 2))"
    by (simp_all add: readyEngine_eq)
  have n: "pattern newAudioEngine = None"
    by (simp add: newAudioEngine_def)
  have a4: "activeVoices fourOnTheFloor 4 = [Kick]"
    and a5: "activeVoices fourOnTheFloor 5 = []"
    by (simp_all add: activeVoices_def track_def truthy_def fourOnTheFloor_def)
  have k: "voiceSources Kick (1 / 2) (GainNode (1 / 2)) =
      [\<lparr>voice = Kick, generator = Oscillator 150, startTime = 1 / 2, stopTime = 1,
            destination = GainNode (1 / 2)\<rparr>]"
    by (simp add: voiceSources_def voiceFunction_def createKick_def)
  note at4 = scheduleStepSounds_dispatch
    [where e = readyEngine and p = fourOnTheFloor and c = ?c and g = "GainNode (1 / 2)"
       and step = 4 and time = "1 / 2" and v = Kick]
  note at5 = scheduleStepSounds_dispatch
    [where e = readyEngine and p = fourOnTheFloor and c = ?c and g = "GainNode (1 / 2)"
       and step = 5 and time = "1 / 2" and v = Kick]
  note at0 = scheduleStepSounds_dispatch
    [where e = newAudioEngine and p = fourOnTheFloor and c = ?c and g = "GainNode (1 / 2)"
       and step = 4 and time = "1 / 2" and v = Kick]
  have r0: "scheduleStepSounds 4 (1 / 2) newAudioEngine = (Returned (), newAudioEngine)"
    using at0 n by blast
  have r5: "scheduleStepSounds 5 (1 / 2) readyEngine =
      (Returned (), readyEngine\<lparr>engineContext := Some (?c\<lparr>sources := sources ?c @
          concat (map (\<lambda>v. voiceSources v (1 / 2) (GainNode (1 / 2)))
                   (activeVoices fourOnTheFloor 5))\<rparr>)\<rparr>)"
    using at5 p c g by blast
  have r5': "scheduleStepSounds 5 (1 / 2) readyEngine = (Returned (), readyEngine)"
    unfolding r5 by (simp add: a5 readyEngine_eq)
  have r4: "scheduleStepSounds 4 (1 / 2) readyEngine =
      (Returned (), readyEngine\<lparr>engineContext := Some (?c\<lparr>sources := sources ?c @
          concat (map (\<lambda>v. voiceSources v (1 / 2) (GainNode (1 / 2)))
                   (activeVoices fourOnTheFloor 4))\<rparr>)\<rparr>)"
    using at4 p c g by blast
  have r4': "engineSources (snd (scheduleStepSounds 4 (1 / 2) readyEngine))
        = [\<lparr>voice = Kick, generator = Oscillator 150, startTime = 1 / 2, stopTime = 1,
            destination = GainNode (1 / 2)\<rparr>]"
    unfolding r4 by (simp add: engineSources_def a4 k)
  show ?thesis
    using p n a4 a5 r0 r5' r4' by blast
qed

text \<open>
  Claim C7, as the code has it. \<open>init()\<close> never returns \<open>false\<close>: in a browser without
  the Web Audio API it throws a \<open>TypeError\<close> (the promise is rejected), and where
  \<open>resume()\<close> is refused it is rejected with that refusal. What the claim says of the
  engine afterwards does hold: no scheduler was made, and \<open>start()\<close>, \<open>stop()\<close> and
  \<open>toggle()\<close> change nothing.
\<close>

theorem init_without_audio_api:
  "fst (init win e) \<noteq> Returned False
   \<and> init noAudioBrowser newAudioEngine = (Thrown TypeError, newAudioEngine)
   \<and> engine_start newAudioEngine = Some (Returned (), newAudioEngine)
   \<and> engine_stop newAudioEngine = newAudioEngine
   \<and> toggle newAudioEngine = Some (Returned (), newAudioEngine)
   \<and> fst (init blockingBrowser newAudioEngine) = Thrown NotAllowedError
   \<and> engineScheduler (snd (init blockingBrowser newAudioEngine)) = None
   \<and> engine_start (snd (init blockingBrowser newAudioEngine))
        = Some (Returned (), snd (init blockingBrowser newAudioEngine))"
proof -
  have never: "fst (init win e) \<noteq> Returned False"
    by (auto simp: init_def Let_def split: option.splits prod.splits outcome.splits)
  have missing: "init noAudioBrowser newAudioEngine = (Thrown TypeError, newAudioEngine)"
    by (simp add: init_def noAudioBrowser_def newAudioEngine_def)
  have idle: "engine_start newAudioEngine = Some (Returned (), newAudioEngine)"
    "engine_stop newAudioEngine = newAudioEngine"
    "toggle newAudioEngine = Some (Returned (), newAudioEngine)"
    by (simp_all add: toggle_def engine_start_def engine_stop_def newAudioEngine_def)
  have blocked: "init blockingBrowser newAudioEngine =
      (Thrown NotAllowedError,
       newAudioEngine\<lparr>engineContext :=
         Some \<lparr> state = Suspended, currentTime = 0, connections = [], sources = [] \<rparr>\<rparr>)"
    by (simp add: init_def blockingBrowser_def newAudioEngine_def resume_def)
  have b: "fst (init blockingBrowser newAudioEngine) = Thrown NotAllowedError"
    "engineScheduler (snd (init blockingBrowser newAudioEngine)) = None"
    "engine_start (snd (init blockingBrowser newAudioEngine))
        = Some (Returned (), snd (init blockingBrowser newAudioEngine))"
    unfolding blocked by (simp_all add: engine_start_def newAudioEngine_def)
  show ?thesis
    using never missing idle b by blast
qed

text \<open>
  Claim C8, as the code has it. A second \<open>destroy()\<close> of an engine that has a context
  does leave an error: \<open>this.context\<close> is never cleared, so \<open>close()\<close> is called on the
  closed context and its promise is rejected with \<open>InvalidStateError\<close>, unhandled. The
  first \<open>destroy()\<close>, and \<open>destroy()\<close> of an engine that was never initialised, leave
  none. The rest of the claim holds: the engine after the second \<open>destroy()\<close> is the
  engine after the first, a second \<open>stop()\<close> changes nothing after the first, and a
  \<open>start()\<close> after a \<open>start()\<close> that returned changes nothing, runs no pass and returns;
  likewise the scheduler's own \<open>stop()\<close>, \<open>destroy()\<close> and \<open>start()\<close>.
\<close>

theorem engine_double_operations:
  "(engineContext e \<noteq> None \<longrightarrow>
      fst (engine_destroy (snd (engine_destroy e))) = [InvalidStateError])
   \<and> snd (engine_destroy (snd (engine_destroy e))) = snd (engine_destroy e)
   \<and> (engineContext e = None \<longrightarrow> fst (engine_destroy e) = [])
   \<and> (engineContext e = Some c \<and> state c \<noteq> Closed \<longrightarrow> fst (engine_destroy e) = [])
   \<and> engine_destroy newAudioEngine = ([], newAudioEngine)
   \<and> engine_stop (engine_stop e) = engine_stop e
   \<and> (engine_start e = Some (Returned (), e') \<longrightarrow> engine_start e' = Some (Returned (), e'))
   \<and> stop (stop s) = stop s
   \<and> destroy (destroy s) = destroy s
   \<and> (isPlaying s \<longrightarrow> start cb now (s, w) = Some (Returned (), s, w))"
proof -
  have fresh: "engine_destroy newAudioEngine = ([], newAudioEngine)"
    by (simp add: engine_destroy_def engine_stop_def newAudioEngine_def)
  have d: "destroy (destroy s) = destroy s"
    by (simp add: destroy_def stop_stop)
  show ?thesis
    using fresh d engine_destroy_second [of e] engine_destroy_destroy [of e]
      engine_destroy_no_context [of e] engine_destroy_first [of e c]
      engine_stop_stop [of e] engine_start_twice [of e e'] stop_stop [of s]
      start_running [of s cb now w]
    by blast
qed

theorem engine_double_operations_witness:
  "engineContext readyEngine \<noteq> None
   \<and> fst (engine_destroy readyEngine) = []
   \<and> fst (engine_destroy (snd (engine_destroy readyEngine))) = [InvalidStateError]
   \<and> snd (engine_destroy (snd (engine_destroy readyEngine))) = snd (engine_destroy readyEngine)
   \<and> map_option state (engineContext (snd (engine_destroy readyEngine))) = Some Closed
   \<and> engine_start readyEngine = Some (Returned (), playing1)
   \<and> engine_start playing1 = Some (Returned (), playing1)
   \<and> isPlaying ((newScheduler None)\<lparr>isPlaying := True, timerID := Some 25\<rparr>)
   \<and> start recording 3 ((newScheduler None)\<lparr>isPlaying := True, timerID := Some 25\<rparr>, [])
        = Some (Returned (), (newScheduler None)\<lparr>isPlaying := True, timerID := Some 25\<rparr>, [])"
proof -
  let ?s = "(newScheduler None)\<lparr>isPlaying := True, timerID := Some 25\<rparr>"
  let ?c = "\<lparr>state = Running, currentTime = 0,
        connections =
          [(GainNode (1 / 2), DynamicsCompressorNode (- 20) 4 (3 / 1000) (1 / 4)),
           (DynamicsCompressorNode (- 20) 4 (3 / 1000) (1 / 4), ContextDestination)],
        sources = []\<rparr>"
  note inst = engine_double_operations
    [where e = readyEngine and e' = playing1 and c = ?c and s = ?s and cb = recording
       and now = 3 and w = "[]"]
  have c: "engineContext readyEngine = Some ?c"
    by (simp add: readyEngine_eq)
  then have c': "engineContext readyEngine \<noteq> None"
    by simp
  have open_context: "state ?c \<noteq> Closed"
    by simp
  have first: "fst (engine_destroy readyEngine) = []"
    using inst c open_context by blast
  have second: "fst (engine_destroy (snd (engine_destroy readyEngine))) = [InvalidStateError]"
    using inst c' by blast
  have same: "snd (engine_destroy (snd (engine_destroy readyEngine))) = snd (engine_destroy readyEngine)"
    using inst by blast
  have closed: "map_option state (engineContext (snd (engine_destroy readyEngine))) = Some Closed"
    by (simp add: engine_destroy_state readyEngine_eq close_def)
  have again: "engine_start playing1 = Some (Returned (), playing1)"
    using inst engine_run_start by blast
  have p: "isPlaying ?s" by simp
  have noop: "start recording 3 (?s, []) = Some (Returned (), ?s, [])"
    using inst p by blast
  show ?thesis
    using c' first second same closed engine_run_start again p noop by blast
qed

text \<open>
  Claim C9 fails as stated: a voice function that is given no context throws.
\<close>

theorem createKick_without_context:
  "createKick None 0 (Some (GainNode (1 / 2))) = Inl TypeError"
  by (simp add: createKick_def)

text \<open>
  Claim C9, amended. Each of the four voice functions, given \<open>null\<close> for the context or
  for the destination, starts no source and throws a \<open>TypeError\<close>. Nothing catches it:
  at the call in \<open>scheduleStepSounds\<close> the exception arrives with the engine unchanged,
  and \<open>scheduleStepSounds\<close>, at a step with an active track, throws it on to its own
  caller.
\<close>

theorem voice_functions_unguarded:
  "createKick None time dest = Inl TypeError
   \<and> createSnare None time dest = Inl TypeError
   \<and> createHiHat None time dest = Inl TypeError
   \<and> createChord None time dest = Inl TypeError
   \<and> createKick ctx time None = Inl TypeError
   \<and> createSnare ctx time None = Inl TypeError
   \<and> createHiHat ctx time None = Inl TypeError
   \<and> createChord ctx time None = Inl TypeError
   \<and> (engineContext e = None \<or> masterGain e = None \<longrightarrow>
        trigger (voiceFunction v) time e = (Thrown TypeError, e))
   \<and> (pattern e = Some p \<and> activeVoices p step \<noteq> []
        \<and> (engineContext e = None \<or> masterGain e = None) \<longrightarrow>
        scheduleStepSounds step time e = (Thrown TypeError, e))"
proof -
  have null_context:
    "createKick None time dest = Inl TypeError" "createSnare None time dest = Inl TypeError"
    "createHiHat None time dest = Inl TypeError" "createChord None time dest = Inl TypeError"
    by (simp_all add: createKick_def createSnare_def createHiHat_def createChord_def)
  have null_destination:
    "createKick ctx time None = Inl TypeError" "createSnare ctx time None = Inl TypeError"
    "createHiHat ctx time None = Inl TypeError" "createChord ctx time None = Inl TypeError"
    by (cases ctx; simp add: createKick_def createSnare_def createHiHat_def createChord_def)+
  show ?thesis
    using null_context null_destination trigger_unavailable [of e v time]
      scheduleStepSounds_unavailable [of e p step time]
    by blast
qed

theorem voice_functions_unguarded_witness:
  "engineContext (setPattern (Some fourOnTheFloor) newAudioEngine) = None
   \<and> pattern (setPattern (Some fourOnTheFloor) newAudioEngine) = Some fourOnTheFloor
   \<and> activeVoices fourOnTheFloor 0 = [Kick]
   \<and> trigger (voiceFunction Kick) 0 (setPattern (Some fourOnTheFloor) newAudioEngine)
        = (Thrown TypeError, setPattern (Some fourOnTheFloor) newAudioEngine)
   \<and> scheduleStepSounds 0 0 (setPattern (Some fourOnTheFloor) newAudioEngine)
        = (Thrown TypeError, setPattern (Some fourOnTheFloor) newAudioEngine)
   \<and> createChord (Some \<lparr>state = Closed, currentTime = 1, connections = [], sources = []\<rparr>) 1 None
        = Inl TypeError"
proof -
  let ?e = "setPattern (Some fourOnTheFloor) newAudioEngine"
  let ?c = "\<lparr>state = Closed, currentTime = 1, connections = [], sources = []\<rparr>"
  note inst = voice_functions_unguarded
    [where e = ?e and p = fourOnTheFloor and step = 0 and time = 0 and v = Kick
       and ctx = None and dest = None]
  note inst2 = voice_functions_unguarded
    [where e = ?e and p = fourOnTheFloor and step = 0 and time = 1 and v = Kick
       and ctx = "Some ?c" and dest = None]
  have c: "engineContext ?e = None"
    and p: "pattern ?e = Some fourOnTheFloor"
    by (simp_all add: setPattern_def newAudioEngine_def)
  have a: "activeVoices fourOnTheFloor 0 = [Kick]"
    by (simp add: activeVoices_def track_def truthy_def fourOnTheFloor_def)
  then have a': "activeVoices fourOnTheFloor 0 \<noteq> []"
    by simp
  have t: "trigger (voiceFunction Kick) 0 ?e = (Thrown TypeError, ?e)"
    using inst c by blast
  have s: "scheduleStepSounds 0 0 ?e = (Thrown TypeError, ?e)"
    using inst c p a' by blast
  have k: "createChord (Some ?c) 1 None = Inl TypeError"
    using inst2 by blast
  show ?thesis
    using c p a t s k by blast
qed

end
